theory Spec2Isabelle
  imports Complex_Main "HOL-Library.Word"
begin

section \<open>The event fetcher of the betting front-end\<close>

text \<open>
  The two React components \<open>CombinedGameEvents\<close> (\<open>src/unnamed/part_000\<close>) and
  \<open>PlayerEvents\<close> (\<open>src/unnamed/part_001\<close>) poll a JSON-RPC provider for \<open>Roll\<close> logs,
  decode them, filter them by player, and store a sorted, capped list for display.

  Conventions of the embedding:
  \<^item> a JavaScript \<open>number\<close> that holds a block number, a loop index or a timestamp is an
    \<open>int\<close> (all of them are integers far below \<open>2^53\<close>, where doubles are exact);
  \<^item> a \<open>bigint\<close> decoded from a \<open>uint256\<close> is a \<open>256 word\<close>; \<open>Number(bigint)\<close> is
    written out as rounding to the nearest double;
  \<^item> a rejected promise or a thrown exception is the value \<open>Err\<close>;
  \<^item> the provider and the ABI decoder (the \<open>ethers\<close> library) are parameters, collected
    in the record \<open>env\<close>;
  \<^item> the liveness flag \<open>isMounted\<close> can only change while the cycle is suspended in an
    \<open>await\<close>; the cycle counts its completed suspension points (\<open>tick\<close>) and reads the
    flag at the current tick.
\<close>

subsection \<open>Constants\<close>

definition TOTAL_BLOCKS_TO_CHECK :: int where
  "TOTAL_BLOCKS_TO_CHECK = 2000"

definition MAX_CHUNK_SIZE :: int where
  "MAX_CHUNK_SIZE = 450"

text \<open>\<open>MAX_RESULTS\<close> of the combined view and of the player view.\<close>

definition MAX_RESULTS :: nat where
  "MAX_RESULTS = 50"

definition MAX_RESULTS_player :: nat where
  "MAX_RESULTS_player = 20"

definition DICE_CONTRACT_ADDRESS :: string where
  "DICE_CONTRACT_ADDRESS = ''0xd60aF0bbE2C6EFeD5651Ef48feb0BF0d77323D9e''"

definition COINFLIP_CONTRACT_ADDRESS :: string where
  "COINFLIP_CONTRACT_ADDRESS = ''0xD0F83311d99e2DeC0517f49d31e1971590D5C09C''"

text \<open>\<open>CONTRACT_ADDRESS\<close> of the player view.\<close>

definition CONTRACT_ADDRESS :: string where
  "CONTRACT_ADDRESS = ''0xd60aF0bbE2C6EFeD5651Ef48feb0BF0d77323D9e''"

definition FETCH_ERROR :: string where
  "FETCH_ERROR = ''Failed to fetch Sei EVM events''"

subsection \<open>Chunk windows\<close>

text \<open>\<open>Math.ceil(a / b)\<close> on integers, for a positive divisor.\<close>

definition ceilDiv :: "int \<Rightarrow> int \<Rightarrow> int" where
  "ceilDiv a b = - ((- a) div b)"

text \<open>
  \<open>const totalBlocksToScan = latestBlock - startBlock;\<close>
  \<open>const chunksNeeded = Math.ceil(totalBlocksToScan / MAX_CHUNK_SIZE);\<close>
\<close>

definition chunksNeeded :: "int \<Rightarrow> int \<Rightarrow> int" where
  "chunksNeeded startBlock latestBlock =
     (let totalBlocksToScan = latestBlock - startBlock
      in ceilDiv totalBlocksToScan MAX_CHUNK_SIZE)"

text \<open>
  The body of the fetch loop up to the query: the window \<open>(fromBlock, toBlock)\<close> of
  iteration \<open>i\<close>. Both bounds are passed to \<open>getLogs\<close>, whose range is inclusive.
\<close>

definition chunkWindow :: "int \<Rightarrow> int \<Rightarrow> int \<Rightarrow> int \<times> int" where
  "chunkWindow startBlock latestBlock i =
     (let chunkStart = latestBlock - (i * MAX_CHUNK_SIZE) - MAX_CHUNK_SIZE;
          chunkEnd = latestBlock - (i * MAX_CHUNK_SIZE);
          fromBlock = max chunkStart startBlock;
          toBlock = chunkEnd
      in (fromBlock, toBlock))"

text \<open>
  The windows of \<open>for (let i = 0; i < chunksNeeded; i++)\<close>, in the order of the
  iterations, from iteration \<open>i\<close> on.
\<close>

function chunkWindows :: "int \<Rightarrow> int \<Rightarrow> int \<Rightarrow> (int \<times> int) list" where
  "chunkWindows startBlock latestBlock i =
     (if i < chunksNeeded startBlock latestBlock
      then chunkWindow startBlock latestBlock i # chunkWindows startBlock latestBlock (i + 1)
      else [])"
  by pat_completeness auto
termination
  by (relation "measure (\<lambda>(s, l, i). nat (chunksNeeded s l - i))") auto

declare chunkWindows.simps [simp del]

text \<open>The blocks a window asks for.\<close>

definition inWindow :: "int \<Rightarrow> int \<times> int \<Rightarrow> bool" where
  "inWindow b w = (fst w \<le> b \<and> b \<le> snd w)"

subsection \<open>Data model\<close>

text \<open>A rejected promise or a thrown exception is \<open>Err\<close>.\<close>

datatype 'a result = Err | Ok 'a

text \<open>The fields of \<open>ethers.Log\<close> that the components read.\<close>

record log =
  log_blockNumber :: int
  log_transactionHash :: string
  log_topics :: "string list"
  log_data :: string

text \<open>
  \<open>parsedLog.args\<close> for \<open>ROLL_EVENT_ABI\<close>:
  \<open>Roll(address player, uint256 amount, uint256 choice, uint256 outcome, bool won)\<close>.
  The three \<open>uint256\<close> arguments are the raw encoded values, which \<open>ethers\<close> hands over
  as \<open>bigint\<close>.
\<close>

record parsedArgs =
  arg_player :: string
  arg_amount :: "256 word"
  arg_choice :: "256 word"
  arg_outcome :: "256 word"
  arg_won :: bool

text \<open>\<open>interface RollEvent\<close> of the player view.\<close>

record rollEvent =
  blockNumber :: int
  transactionHash :: string
  player :: string
  amount :: int
  choice :: int
  outcome :: int
  won :: bool
  timestamp :: int

text \<open>\<open>interface GameEvent\<close> of the combined view: the same fields and \<open>gameType\<close>.\<close>

datatype gameType = Dice | Coinflip

record gameEvent = rollEvent +
  gameType :: gameType

text \<open>
  The outside world of one fetch cycle.
  \<^item> \<open>getBlockNumber\<close>, \<open>getLogs address fromBlock toBlock\<close> and \<open>getBlock n\<close> are the
    provider's answers (\<open>getBlock\<close> resolves to \<open>null\<close>, here \<open>None\<close>, or to a block, of
    which only the timestamp is read);
  \<^item> \<open>parseLog topics data\<close> is \<open>iface.parseLog\<close>: it throws, returns \<open>null\<close>, or returns
    the decoded arguments;
  \<^item> \<open>teardown = Some k\<close> says that the effect's cleanup (\<open>isMounted = false\<close>) runs
    while the cycle waits in its \<open>k\<close>-th suspension point (\<open>k = 0\<close>: before the cycle
    starts); \<open>None\<close> says the view outlives the cycle.
\<close>

record env =
  getBlockNumber :: "int result"
  getLogs :: "string \<Rightarrow> int \<Rightarrow> int \<Rightarrow> log list result"
  getBlock :: "int \<Rightarrow> int option result"
  parseLog :: "string list \<Rightarrow> string \<Rightarrow> parsedArgs option result"
  teardown :: "nat option"

text \<open>The value of \<open>isMounted\<close> once \<open>tick\<close> suspension points have completed.\<close>

definition isMounted :: "env \<Rightarrow> nat \<Rightarrow> bool" where
  "isMounted e tick = (case teardown e of None \<Rightarrow> True | Some k \<Rightarrow> tick < k)"

text \<open>The React state of a component: \<open>events\<close>, \<open>loading\<close>, \<open>error\<close>.\<close>

record 'e ui =
  events :: "'e list"
  loading :: bool
  error :: "string option"

subsection \<open>Library functions of JavaScript\<close>

text \<open>\<open>String.prototype.toLowerCase\<close> on ASCII strings (addresses are hexadecimal).\<close>

definition lowerChar :: "char \<Rightarrow> char" where
  "lowerChar c =
     (let n = (of_char c :: nat)
      in if 65 \<le> n \<and> n \<le> 90 then char_of (n + 32) else c)"

definition toLowerCase :: "string \<Rightarrow> string" where
  "toLowerCase s = map lowerChar s"

text \<open>The number of binary digits of a natural number.\<close>

fun bitLength :: "nat \<Rightarrow> nat" where
  "bitLength n = (if n = 0 then 0 else Suc (bitLength (n div 2)))"

declare bitLength.simps [simp del]

text \<open>
  \<open>Number(x)\<close> for a non-negative \<open>bigint\<close> below \<open>2^1024\<close>: the double nearest to \<open>x\<close>,
  ties to the even significand. A double has 53 significant bits, so a value of more
  than 53 bits loses its low \<open>k\<close> bits. The result is an integer again.
\<close>

definition toNumber :: "nat \<Rightarrow> nat" where
  "toNumber n =
     (if n < 2 ^ 53 then n
      else (let k = bitLength n - 53;
                q = n div 2 ^ k;
                r = n mod 2 ^ k;
                h = 2 ^ (k - 1)
            in (if h < r \<or> (r = h \<and> odd q) then q + 1 else q) * 2 ^ k))"

text \<open>
  \<open>xs.sort((a, b) => b.blockNumber - a.blockNumber)\<close>: \<open>Array.prototype.sort\<close> is a
  stable sort, here by descending block number.
\<close>

definition sortByBlockDesc :: "'a rollEvent_scheme list \<Rightarrow> 'a rollEvent_scheme list" where
  "sortByBlockDesc xs = sort_key (\<lambda>e. - blockNumber e) xs"

text \<open>\<open>currentAccount || ''\<close>, for \<open>currentAccount\<close> of type \<open>string | undefined\<close>.\<close>

definition orEmpty :: "string option \<Rightarrow> string" where
  "orEmpty currentAccount =
     (case currentAccount of None \<Rightarrow> [] | Some a \<Rightarrow> (if a = [] then [] else a))"

subsection \<open>The combined view: \<open>fetchEventsForContract\<close>\<close>

text \<open>
  The first loop of \<open>fetchEventsForContract\<close>, from iteration \<open>i\<close> on. It returns the
  windows it has asked the provider for, oldest query first, and \<open>allLogs\<close>; a failing
  query rejects the whole function.
\<close>

function fetchLogs ::
  "env \<Rightarrow> string \<Rightarrow> int \<Rightarrow> int \<Rightarrow> int \<Rightarrow> (int \<times> int) list \<Rightarrow> log list
   \<Rightarrow> (int \<times> int) list \<times> log list result" where
  "fetchLogs e contractAddress startBlock latestBlock i queries allLogs =
     (if i < chunksNeeded startBlock latestBlock
      then (let w = chunkWindow startBlock latestBlock i
            in case getLogs e contractAddress (fst w) (snd w) of
                 Err \<Rightarrow> (queries @ [w], Err)
               | Ok logs \<Rightarrow>
                   fetchLogs e contractAddress startBlock latestBlock (i + 1)
                     (queries @ [w]) (allLogs @ logs))
      else (queries, Ok allLogs))"
  by pat_completeness auto
termination
  by (relation "measure (\<lambda>(e, a, s, l, i, q, acc). nat (chunksNeeded s l - i))") auto

declare fetchLogs.simps [simp del]

text \<open>The object literal pushed onto \<open>parsedEvents\<close> (lines 118 to 128).\<close>

definition gameEventOf :: "log \<Rightarrow> string \<Rightarrow> parsedArgs \<Rightarrow> gameType \<Rightarrow> int \<Rightarrow> gameEvent" where
  "gameEventOf l player' parsedLog gt blockTimestamp =
     \<lparr> blockNumber = log_blockNumber l,
       transactionHash =
         (if log_transactionHash l = [] then ''unknown'' else log_transactionHash l),
       player = player',
       amount = uint (arg_amount parsedLog),
       choice = int (toNumber (unat (arg_choice parsedLog))),
       outcome = int (toNumber (unat (arg_outcome parsedLog))),
       won = arg_won parsedLog,
       timestamp = blockTimestamp,
       gameType = gt \<rparr>"

text \<open>
  The second loop, \<open>for (const log of allLogs)\<close>. Every exception thrown inside the
  \<open>try\<close> (by \<open>parseLog\<close> or by \<open>getBlock\<close>) is caught, logged, and the loop goes on.
\<close>

fun parseLogs :: "env \<Rightarrow> gameType \<Rightarrow> string \<Rightarrow> log list \<Rightarrow> gameEvent list \<Rightarrow> gameEvent list" where
  "parseLogs e gt currentAccount [] parsedEvents = parsedEvents"
| "parseLogs e gt currentAccount (l # ls) parsedEvents =
     (case parseLog e (log_topics l) (log_data l) of
        Err \<Rightarrow> parseLogs e gt currentAccount ls parsedEvents
      | Ok None \<Rightarrow> parseLogs e gt currentAccount ls parsedEvents
      | Ok (Some parsedLog) \<Rightarrow>
          (let player' = toLowerCase (arg_player parsedLog)
           in if currentAccount \<noteq> [] \<and> player' \<noteq> toLowerCase currentAccount
              then parseLogs e gt currentAccount ls parsedEvents
              else (case getBlock e (log_blockNumber l) of
                      Err \<Rightarrow> parseLogs e gt currentAccount ls parsedEvents
                    | Ok None \<Rightarrow> parseLogs e gt currentAccount ls parsedEvents
                    | Ok (Some blockTimestamp) \<Rightarrow>
                        parseLogs e gt currentAccount ls
                          (parsedEvents @ [gameEventOf l player' parsedLog gt blockTimestamp]))))"

text \<open>
  What one iteration of that loop appends to \<open>parsedEvents\<close>: nothing or one event.
  The loop is this step, iterated (lemma \<open>parseLogs_Cons\<close>).
\<close>

definition loopBody :: "env \<Rightarrow> gameType \<Rightarrow> string \<Rightarrow> log \<Rightarrow> gameEvent list" where
  "loopBody e gt currentAccount l =
     (case parseLog e (log_topics l) (log_data l) of
        Err \<Rightarrow> []
      | Ok None \<Rightarrow> []
      | Ok (Some parsedLog) \<Rightarrow>
          (let player' = toLowerCase (arg_player parsedLog)
           in if currentAccount \<noteq> [] \<and> player' \<noteq> toLowerCase currentAccount
              then []
              else (case getBlock e (log_blockNumber l) of
                      Err \<Rightarrow> []
                    | Ok None \<Rightarrow> []
                    | Ok (Some blockTimestamp) \<Rightarrow>
                        [gameEventOf l player' parsedLog gt blockTimestamp])))"

definition fetchEventsForContract ::
  "env \<Rightarrow> string \<Rightarrow> gameType \<Rightarrow> int \<Rightarrow> int \<Rightarrow> string
   \<Rightarrow> (int \<times> int) list \<times> gameEvent list result" where
  "fetchEventsForContract e contractAddress gt startBlock latestBlock currentAccount =
     (case fetchLogs e contractAddress startBlock latestBlock 0 [] [] of
        (queries, Err) \<Rightarrow> (queries, Err)
      | (queries, Ok allLogs) \<Rightarrow> (queries, Ok (parseLogs e gt currentAccount allLogs [])))"

subsection \<open>The combined view: \<open>fetchAllEvents\<close>\<close>

text \<open>The \<open>catch\<close> and the \<open>finally\<close> block of a cycle, run at the given tick.\<close>

definition onCatch :: "env \<Rightarrow> nat \<Rightarrow> 'e ui \<Rightarrow> 'e ui" where
  "onCatch e tick u = (if isMounted e tick then u\<lparr>error := Some FETCH_ERROR\<rparr> else u)"

definition onFinally :: "env \<Rightarrow> nat \<Rightarrow> 'e ui \<Rightarrow> 'e ui" where
  "onFinally e tick u = (if isMounted e tick then u\<lparr>loading := False\<rparr> else u)"

text \<open>The first statement of a cycle: \<open>if (isMounted) { setError(null); setLoading(true); }\<close>.\<close>

definition onStart :: "env \<Rightarrow> 'e ui \<Rightarrow> 'e ui" where
  "onStart e u = (if isMounted e 0 then u\<lparr>error := None, loading := True\<rparr> else u)"

text \<open>
  \<open>Promise.all\<close> of two promises: rejected as soon as one of them is, otherwise both
  values. The two calls only read the provider, so their interleaving does not show.
\<close>

definition promiseAll :: "'a result \<Rightarrow> 'b result \<Rightarrow> ('a \<times> 'b) result" where
  "promiseAll p1 p2 =
     (case p1 of
        Err \<Rightarrow> Err
      | Ok a \<Rightarrow> (case p2 of Err \<Rightarrow> Err | Ok b \<Rightarrow> Ok (a, b)))"

text \<open>
  One cycle of the combined view, from the displayed state to the number of completed
  suspension points and the new displayed state. \<open>fetchAllEvents\<close> itself suspends
  twice: in \<open>getBlockNumber\<close> and in \<open>Promise.all\<close>.
\<close>

definition fetchAllEvents :: "env \<Rightarrow> string option \<Rightarrow> gameEvent ui \<Rightarrow> nat \<times> gameEvent ui" where
  "fetchAllEvents e currentAccount u0 =
     (let u1 = onStart e u0
      in case getBlockNumber e of
           Err \<Rightarrow> (1, onFinally e 1 (onCatch e 1 u1))
         | Ok latestBlock \<Rightarrow>
             if \<not> isMounted e 1 then (1, onFinally e 1 u1)
             else (let startBlock = max (latestBlock - TOTAL_BLOCKS_TO_CHECK) 0
                   in case promiseAll
                             (snd (fetchEventsForContract e DICE_CONTRACT_ADDRESS Dice
                                     startBlock latestBlock (orEmpty currentAccount)))
                             (snd (fetchEventsForContract e COINFLIP_CONTRACT_ADDRESS Coinflip
                                     startBlock latestBlock (orEmpty currentAccount))) of
                        Err \<Rightarrow> (2, onFinally e 2 (onCatch e 2 u1))
                      | Ok (diceEvents, coinflipEvents) \<Rightarrow>
                          if \<not> isMounted e 2 then (2, onFinally e 2 u1)
                          else (let allEvents =
                                      take MAX_RESULTS
                                        (sortByBlockDesc (diceEvents @ coinflipEvents))
                                in (2, onFinally e 2 (u1\<lparr>events := allEvents\<rparr>)))))"

subsection \<open>The player view: \<open>fetchRollEvents\<close>\<close>

text \<open>
  The first loop, \<open>for (let i = 0; i < chunksNeeded && isMounted; i++)\<close>. Each query
  is one suspension point, the delay between two queries another one.
\<close>

function fetchLogsP ::
  "env \<Rightarrow> int \<Rightarrow> int \<Rightarrow> int \<Rightarrow> nat \<Rightarrow> (int \<times> int) list \<Rightarrow> log list
   \<Rightarrow> nat \<times> (int \<times> int) list \<times> log list result" where
  "fetchLogsP e startBlock latestBlock i tick queries allLogs =
     (if i < chunksNeeded startBlock latestBlock \<and> isMounted e tick
      then (let w = chunkWindow startBlock latestBlock i
            in case getLogs e CONTRACT_ADDRESS (fst w) (snd w) of
                 Err \<Rightarrow> (tick + 1, queries @ [w], Err)
               | Ok logs \<Rightarrow>
                   fetchLogsP e startBlock latestBlock (i + 1)
                     (if i < chunksNeeded startBlock latestBlock - 1 then tick + 2 else tick + 1)
                     (queries @ [w]) (allLogs @ logs))
      else (tick, queries, Ok allLogs))"
  by pat_completeness auto
termination
  by (relation "measure (\<lambda>(e, s, l, i, t, q, acc). nat (chunksNeeded s l - i))") auto

declare fetchLogsP.simps [simp del]

text \<open>The object literal pushed onto \<open>parsedEvents\<close> (lines 130 to 139).\<close>

definition rollEventOf :: "log \<Rightarrow> string \<Rightarrow> parsedArgs \<Rightarrow> int \<Rightarrow> rollEvent" where
  "rollEventOf l player' parsedLog blockTimestamp =
     \<lparr> blockNumber = log_blockNumber l,
       transactionHash =
         (if log_transactionHash l = [] then ''unknown'' else log_transactionHash l),
       player = player',
       amount = uint (arg_amount parsedLog),
       choice = int (toNumber (unat (arg_choice parsedLog))),
       outcome = int (toNumber (unat (arg_outcome parsedLog))),
       won = arg_won parsedLog,
       timestamp = blockTimestamp \<rparr>"

text \<open>
  The second loop. \<open>await provider.getBlock\<close> is a suspension point, and the flag is
  read after it: \<open>if (!block || !isMounted) continue;\<close>.
\<close>

fun parseLogsP :: "env \<Rightarrow> string \<Rightarrow> log list \<Rightarrow> nat \<Rightarrow> rollEvent list \<Rightarrow> nat \<times> rollEvent list" where
  "parseLogsP e currentAccount [] tick parsedEvents = (tick, parsedEvents)"
| "parseLogsP e currentAccount (l # ls) tick parsedEvents =
     (case parseLog e (log_topics l) (log_data l) of
        Err \<Rightarrow> parseLogsP e currentAccount ls tick parsedEvents
      | Ok None \<Rightarrow> parseLogsP e currentAccount ls tick parsedEvents
      | Ok (Some parsedLog) \<Rightarrow>
          (let player' = toLowerCase (arg_player parsedLog)
           in if player' \<noteq> toLowerCase currentAccount
              then parseLogsP e currentAccount ls tick parsedEvents
              else (case getBlock e (log_blockNumber l) of
                      Err \<Rightarrow> parseLogsP e currentAccount ls (tick + 1) parsedEvents
                    | Ok None \<Rightarrow> parseLogsP e currentAccount ls (tick + 1) parsedEvents
                    | Ok (Some blockTimestamp) \<Rightarrow>
                        if \<not> isMounted e (tick + 1)
                        then parseLogsP e currentAccount ls (tick + 1) parsedEvents
                        else parseLogsP e currentAccount ls (tick + 1)
                               (parsedEvents @ [rollEventOf l player' parsedLog blockTimestamp]))))"

text \<open>
  One iteration of that loop: the tick after it and what it appends to \<open>parsedEvents\<close>
  (lemma \<open>parseLogsP_Cons\<close>).
\<close>

definition loopBodyP :: "env \<Rightarrow> string \<Rightarrow> log \<Rightarrow> nat \<Rightarrow> nat \<times> rollEvent list" where
  "loopBodyP e currentAccount l tick =
     (case parseLog e (log_topics l) (log_data l) of
        Err \<Rightarrow> (tick, [])
      | Ok None \<Rightarrow> (tick, [])
      | Ok (Some parsedLog) \<Rightarrow>
          (let player' = toLowerCase (arg_player parsedLog)
           in if player' \<noteq> toLowerCase currentAccount
              then (tick, [])
              else (case getBlock e (log_blockNumber l) of
                      Err \<Rightarrow> (tick + 1, [])
                    | Ok None \<Rightarrow> (tick + 1, [])
                    | Ok (Some blockTimestamp) \<Rightarrow>
                        if \<not> isMounted e (tick + 1)
                        then (tick + 1, [])
                        else (tick + 1, [rollEventOf l player' parsedLog blockTimestamp]))))"

text \<open>
  One cycle of the player view. The effect starts cycles only for a connected wallet,
  so \<open>currentAccount\<close> is a non-empty string here.
\<close>

definition fetchRollEvents :: "env \<Rightarrow> string \<Rightarrow> rollEvent ui \<Rightarrow> nat \<times> rollEvent ui" where
  "fetchRollEvents e currentAccount u0 =
     (let u1 = onStart e u0
      in case getBlockNumber e of
           Err \<Rightarrow> (1, onFinally e 1 (onCatch e 1 u1))
         | Ok latestBlock \<Rightarrow>
             if \<not> isMounted e 1 then (1, onFinally e 1 u1)
             else (let startBlock = max (latestBlock - TOTAL_BLOCKS_TO_CHECK) 0
                   in case fetchLogsP e startBlock latestBlock 0 1 [] [] of
                        (tick, queries, Err) \<Rightarrow> (tick, onFinally e tick (onCatch e tick u1))
                      | (tick, queries, Ok allLogs) \<Rightarrow>
                          if \<not> isMounted e tick then (tick, onFinally e tick u1)
                          else (case parseLogsP e currentAccount allLogs tick [] of
                                  (tick', parsedEvents) \<Rightarrow>
                                    (let u2 =
                                       (if isMounted e tick'
                                        then u1\<lparr>events :=
                                               take MAX_RESULTS_player
                                                 (sortByBlockDesc parsedEvents)\<rparr>
                                        else u1)
                                     in (tick', onFinally e tick' u2)))))"

subsection \<open>The provider's contract\<close>

text \<open>
  What \<open>eth_getLogs\<close> promises: a successful query returns only logs of blocks in the
  range that was asked for.
\<close>

definition respectsRange :: "env \<Rightarrow> bool" where
  "respectsRange e =
     (\<forall>address fromBlock toBlock logs.
        getLogs e address fromBlock toBlock = Ok logs \<longrightarrow>
        (\<forall>l\<in>set logs. fromBlock \<le> log_blockNumber l \<and> log_blockNumber l \<le> toBlock))"

subsection \<open>A sample provider\<close>

text \<open>
  Concrete inputs on which the properties below are run. The chain is at block 500, so
  a cycle scans the blocks 0 to 500 in the two windows \<open>[50, 500]\<close> and \<open>[0, 50]\<close>. The
  dice contract has four logs: at block 50 (player \<open>0xAb\<close>), at block 300 (player
  \<open>0xCD\<close>), at block 400 (its data does not decode) and at block 450 (player \<open>0xAb\<close>,
  but the block lookup resolves to \<open>null\<close>). \<open>getLogs\<close> answers with the logs of the
  address that lie in the range asked for.
\<close>

definition sampleLog :: "int \<Rightarrow> string \<Rightarrow> log" where
  "sampleLog n d =
     \<lparr> log_blockNumber = n, log_transactionHash = ''0x'' @ d, log_topics = [], log_data = d \<rparr>"

definition sampleLogs :: "log list" where
  "sampleLogs = [sampleLog 50 ''a1'', sampleLog 300 ''b2'', sampleLog 400 ''c3'', sampleLog 450 ''d4'']"

definition sampleArgs :: "string \<Rightarrow> parsedArgs" where
  "sampleArgs p =
     \<lparr> arg_player = p, arg_amount = 1000, arg_choice = 3, arg_outcome = 5, arg_won = False \<rparr>"

definition sampleEnv :: env where
  "sampleEnv =
     \<lparr> getBlockNumber = Ok 500,
       getLogs = (\<lambda>address fromBlock toBlock.
          Ok (filter (\<lambda>l. fromBlock \<le> log_blockNumber l \<and> log_blockNumber l \<le> toBlock)
                (if address = DICE_CONTRACT_ADDRESS then sampleLogs else []))),
       getBlock = (\<lambda>n. if n = 450 then Ok None else Ok (Some (1700000000 + n))),
       parseLog = (\<lambda>topics d.
          if d = ''a1'' \<or> d = ''d4'' then Ok (Some (sampleArgs ''0xAb''))
          else if d = ''b2'' then Ok (Some (sampleArgs ''0xCD''))
          else Err),
       teardown = None \<rparr>"

text \<open>The state of a component before its first cycle.\<close>

definition initialUi :: "'e ui" where
  "initialUi = \<lparr> events = [], loading = True, error = None \<rparr>"

text \<open>
  The same provider, but the query for the oldest window \<open>[0, 50]\<close> is rejected (the
  query for \<open>[50, 500]\<close> before it succeeds).
\<close>

definition failingEnv :: env where
  "failingEnv =
     sampleEnv\<lparr>getLogs := (\<lambda>address fromBlock toBlock.
        if fromBlock = 0 then Err else getLogs sampleEnv address fromBlock toBlock)\<rparr>"

text \<open>The same provider, but the view is torn down during the second suspension point.\<close>

definition tornEnv :: env where
  "tornEnv = sampleEnv\<lparr>teardown := Some 2\<rparr>"

text \<open>A component that displays one event of an earlier cycle.\<close>

definition oldRoll :: rollEvent where
  "oldRoll = rollEventOf (sampleLog 7 ''a1'') ''0xab'' (sampleArgs ''0xAb'') 1600000000"

definition oldGame :: gameEvent where
  "oldGame = gameEventOf (sampleLog 7 ''a1'') ''0xab'' (sampleArgs ''0xAb'') Dice 1600000000"

definition shown :: "'e \<Rightarrow> 'e ui" where
  "shown x = \<lparr> events = [x], loading = False, error = None \<rparr>"

subsection \<open>Notions used in the statements\<close>

text \<open>
  Some log query of a cycle for the given contract is rejected: one of the windows of
  the range \<open>[max (latestBlock - 2000) 0, latestBlock]\<close> gets no answer.
\<close>

definition queryFails :: "env \<Rightarrow> string \<Rightarrow> int \<Rightarrow> bool" where
  "queryFails e address latestBlock =
     list_ex (\<lambda>w. getLogs e address (fst w) (snd w) = Err)
       (chunkWindows (max (latestBlock - TOTAL_BLOCKS_TO_CHECK) 0) latestBlock 0)"

text \<open>
  The events of all logs that decode and whose block resolves, whoever the player is:
  what an unfiltered view is to show.
\<close>

definition decodeAll :: "env \<Rightarrow> gameType \<Rightarrow> log list \<Rightarrow> gameEvent list" where
  "decodeAll e gt logs =
     concat (map (\<lambda>l.
        case parseLog e (log_topics l) (log_data l) of
          Ok (Some parsedLog) \<Rightarrow>
            (case getBlock e (log_blockNumber l) of
               Ok (Some blockTimestamp) \<Rightarrow>
                 [gameEventOf l (toLowerCase (arg_player parsedLog)) parsedLog gt blockTimestamp]
             | _ \<Rightarrow> [])
        | _ \<Rightarrow> []) logs)"

section \<open>Properties\<close>

subsection \<open>Arithmetic of the windows\<close>

lemma ceilDiv_ceiling: "ceilDiv a b = \<lceil>real_of_int a / real_of_int b\<rceil>"
proof -
  have "\<lfloor>real_of_int (- a) / real_of_int b\<rfloor> = (- a) div b"
    by (rule floor_divide_of_int_eq)
  then show ?thesis
    by (simp add: ceilDiv_def ceiling_def)
qed

lemma chunkWindows_0_2000:
  "chunkWindows 0 2000 0 = [(1550, 2000), (1100, 1550), (650, 1100), (200, 650), (0, 200)]"
  by (simp add: chunkWindows.simps chunkWindow_def chunksNeeded_def ceilDiv_def MAX_CHUNK_SIZE_def)

text \<open>
  Two consecutive windows of the loop share the block \<open>latestBlock - (i + 1) * 450\<close>:
  it is the first block of window \<open>i\<close> and the last block of window \<open>i + 1\<close>.
\<close>

lemma chunks_lower:
  assumes "i + 1 < chunksNeeded s l"
  shows "(i + 1) * 450 < l - s"
proof -
  from assms have h: "i + 1 < - ((- (l - s)) div 450)"
    by (simp add: chunksNeeded_def ceilDiv_def MAX_CHUNK_SIZE_def)
  define d where "d = (- (l - s)) div 450"
  have "- (l - s) = d * 450 + (- (l - s)) mod 450"
    unfolding d_def by simp
  moreover have "(- (l - s)) mod 450 < 450" by simp
  moreover from h have "i + 2 \<le> - d" by (simp add: d_def)
  then have "(i + 2) * 450 \<le> (- d) * 450" by (rule mult_right_mono) simp
  ultimately show ?thesis by (simp add: algebra_simps)
qed

lemma consecutive_windows_overlap:
  assumes "i + 1 < chunksNeeded startBlock latestBlock"
  shows "inWindow (latestBlock - (i + 1) * MAX_CHUNK_SIZE) (chunkWindow startBlock latestBlock i)
     \<and> inWindow (latestBlock - (i + 1) * MAX_CHUNK_SIZE) (chunkWindow startBlock latestBlock (i + 1))"
proof -
  define b where "b = latestBlock - (i + 1) * 450"
  from chunks_lower [OF assms] have sb: "startBlock < b" by (simp add: b_def)
  have w0: "chunkWindow startBlock latestBlock i = (max b startBlock, b + 450)"
    by (simp add: chunkWindow_def MAX_CHUNK_SIZE_def b_def algebra_simps)
  have w1: "chunkWindow startBlock latestBlock (i + 1) = (max (b - 450) startBlock, b)"
    by (simp add: chunkWindow_def MAX_CHUNK_SIZE_def b_def algebra_simps)
  from sb show ?thesis
    unfolding MAX_CHUNK_SIZE_def b_def [symmetric] w0 w1 by (simp add: inWindow_def)
qed

lemmas window_defs = chunkWindow_def chunksNeeded_def ceilDiv_def MAX_CHUNK_SIZE_def

subsection \<open>The fetch loop of the combined view\<close>

lemma chunkWindow_bounds:
  "0 \<le> i \<Longrightarrow> startBlock \<le> fst (chunkWindow startBlock latestBlock i)
     \<and> snd (chunkWindow startBlock latestBlock i) \<le> latestBlock"
  by (simp add: chunkWindow_def MAX_CHUNK_SIZE_def)

lemma fetchLogs_queries_bounds:
  "0 \<le> i \<Longrightarrow> q \<in> set (fst (fetchLogs e a s l i qs acc)) \<Longrightarrow>
     q \<in> set qs \<or> (s \<le> fst q \<and> snd q \<le> l)"
proof (induction e a s l i qs acc rule: fetchLogs.induct)
  case (1 e a s l i qs acc)
  show ?case
  proof (cases "i < chunksNeeded s l")
    case False
    with "1.prems" show ?thesis by (simp add: fetchLogs.simps [of e a s l i])
  next
    case True
    define w where "w = chunkWindow s l i"
    have wb: "s \<le> fst w \<and> snd w \<le> l"
      unfolding w_def using "1.prems"(1) by (rule chunkWindow_bounds)
    show ?thesis
    proof (cases "getLogs e a (fst w) (snd w)")
      case Err
      with True "1.prems" wb show ?thesis
        by (auto simp: fetchLogs.simps [of e a s l i] w_def [symmetric] Let_def)
    next
      case (Ok logs)
      have "q \<in> set (fst (fetchLogs e a s l (i + 1) (qs @ [w]) (acc @ logs)))"
        using True Ok "1.prems"(2)
        by (simp add: fetchLogs.simps [of e a s l i] w_def [symmetric] Let_def)
      moreover have "0 \<le> i + 1" using "1.prems"(1) by simp
      ultimately have "q \<in> set (qs @ [w]) \<or> (s \<le> fst q \<and> snd q \<le> l)"
        using "1.IH" [OF True w_def Ok] by blast
      with wb show ?thesis by auto
    qed
  qed
qed

lemma fetchLogs_logs:
  "snd (fetchLogs e a s l i qs acc) = Ok logs \<Longrightarrow> x \<in> set logs \<Longrightarrow>
     x \<in> set acc \<or>
     (\<exists>j ls. i \<le> j \<and> j < chunksNeeded s l
        \<and> getLogs e a (fst (chunkWindow s l j)) (snd (chunkWindow s l j)) = Ok ls \<and> x \<in> set ls)"
proof (induction e a s l i qs acc rule: fetchLogs.induct)
  case (1 e a s l i qs acc)
  show ?case
  proof (cases "i < chunksNeeded s l")
    case False
    with "1.prems" show ?thesis by (simp add: fetchLogs.simps [of e a s l i])
  next
    case True
    define w where "w = chunkWindow s l i"
    show ?thesis
    proof (cases "getLogs e a (fst w) (snd w)")
      case Err
      with True "1.prems" show ?thesis
        by (simp add: fetchLogs.simps [of e a s l i] w_def [symmetric] Let_def)
    next
      case (Ok ls0)
      have "snd (fetchLogs e a s l (i + 1) (qs @ [w]) (acc @ ls0)) = Ok logs"
        using True Ok "1.prems"(1)
        by (simp add: fetchLogs.simps [of e a s l i] w_def [symmetric] Let_def)
      from "1.IH" [OF True w_def Ok this "1.prems"(2)]
      consider "x \<in> set acc" | "x \<in> set ls0"
        | j ls where "i + 1 \<le> j" "j < chunksNeeded s l"
            "getLogs e a (fst (chunkWindow s l j)) (snd (chunkWindow s l j)) = Ok ls" "x \<in> set ls"
        by auto
      then show ?thesis
      proof cases
        case 1 then show ?thesis by simp
      next
        case 2
        with True Ok show ?thesis unfolding w_def by (intro disjI2 exI [of _ i] exI [of _ ls0]) simp
      next
        case 3
        then show ?thesis by (intro disjI2 exI [of _ j] exI [of _ ls]) simp
      qed
    qed
  qed
qed

lemma fetchLogs_Err_iff:
  "snd (fetchLogs e a s l i qs acc) = Err \<longleftrightarrow>
     (\<exists>j. i \<le> j \<and> j < chunksNeeded s l
        \<and> getLogs e a (fst (chunkWindow s l j)) (snd (chunkWindow s l j)) = Err)"
proof (induction e a s l i qs acc rule: fetchLogs.induct)
  case (1 e a s l i qs acc)
  show ?case
  proof (cases "i < chunksNeeded s l")
    case False
    then show ?thesis by (auto simp: fetchLogs.simps [of e a s l i])
  next
    case True
    define w where "w = chunkWindow s l i"
    show ?thesis
    proof (cases "getLogs e a (fst w) (snd w)")
      case Err
      with True show ?thesis
        by (auto simp: fetchLogs.simps [of e a s l i] w_def [symmetric] Let_def intro!: exI [of _ i])
    next
      case (Ok ls0)
      have "snd (fetchLogs e a s l i qs acc) = snd (fetchLogs e a s l (i + 1) (qs @ [w]) (acc @ ls0))"
        using True Ok by (simp add: fetchLogs.simps [of e a s l i] w_def [symmetric] Let_def)
      also have "\<dots> = Err \<longleftrightarrow> (\<exists>j. i + 1 \<le> j \<and> j < chunksNeeded s l
        \<and> getLogs e a (fst (chunkWindow s l j)) (snd (chunkWindow s l j)) = Err)"
        by (rule "1.IH" [OF True w_def Ok])
      also have "\<dots> \<longleftrightarrow> (\<exists>j. i \<le> j \<and> j < chunksNeeded s l
        \<and> getLogs e a (fst (chunkWindow s l j)) (snd (chunkWindow s l j)) = Err)"
      proof -
        have "j = i \<or> i + 1 \<le> j" if "i \<le> j" for j using that by linarith
        then show ?thesis using Ok unfolding w_def
          by (metis result.distinct(1) add.commute add_le_cancel_left le_add1 zle_add1_eq_le zless_imp_add1_zle order_less_le)
      qed
      finally show ?thesis .
    qed
  qed
qed

subsection \<open>Sorting and capping\<close>

lemma sortByBlockDesc_sorted:
  "sorted_wrt (\<lambda>a b. blockNumber b \<le> blockNumber a) (sortByBlockDesc xs)"
proof -
  have "sorted (map (\<lambda>e. - blockNumber e) (sortByBlockDesc xs))"
    unfolding sortByBlockDesc_def by (rule sorted_sort_key)
  then show ?thesis
    by (simp add: sorted_wrt_map)
qed

lemma set_sortByBlockDesc: "set (sortByBlockDesc xs) = set xs"
  by (simp add: sortByBlockDesc_def)

lemma display_sorted:
  "sorted_wrt (\<lambda>a b. blockNumber b \<le> blockNumber a) (take n (sortByBlockDesc xs))"
  using sortByBlockDesc_sorted by (rule sorted_wrt_take)

lemma display_subset: "x \<in> set (take n (sortByBlockDesc xs)) \<Longrightarrow> x \<in> set xs"
  using set_take_subset [of n "sortByBlockDesc xs"] by (auto simp: set_sortByBlockDesc)

subsection \<open>Lower case\<close>

lemma lowerChar_idem: "lowerChar (lowerChar c) = lowerChar c"
  by (simp add: lowerChar_def Let_def)

lemma toLowerCase_idem: "toLowerCase (toLowerCase s) = toLowerCase s"
  by (simp add: toLowerCase_def lowerChar_idem)

subsection \<open>The decoding loop of the combined view\<close>

lemma parseLogs_Cons:
  "parseLogs e gt acct (l # ls) acc = parseLogs e gt acct ls (acc @ loopBody e gt acct l)"
  by (simp add: loopBody_def Let_def split: result.split option.split)

lemma parseLogs_eq:
  "parseLogs e gt acct ls acc = acc @ concat (map (loopBody e gt acct) ls)"
proof (induction ls arbitrary: acc)
  case Nil
  show ?case by simp
next
  case (Cons l ls)
  show ?case
    unfolding parseLogs_Cons by (simp add: Cons.IH)
qed

lemma loopBody_mem:
  assumes "x \<in> set (loopBody e gt acct l)"
  shows "\<exists>parsedLog ts.
        parseLog e (log_topics l) (log_data l) = Ok (Some parsedLog)
        \<and> getBlock e (log_blockNumber l) = Ok (Some ts)
        \<and> (acct = [] \<or> toLowerCase (arg_player parsedLog) = toLowerCase acct)
        \<and> x = gameEventOf l (toLowerCase (arg_player parsedLog)) parsedLog gt ts"
proof (cases "parseLog e (log_topics l) (log_data l)")
  case Err
  with assms show ?thesis by (simp add: loopBody_def)
next
  case (Ok r)
  show ?thesis
  proof (cases r)
    case None
    with Ok assms show ?thesis by (simp add: loopBody_def)
  next
    case (Some parsedLog)
    show ?thesis
    proof (cases "getBlock e (log_blockNumber l)")
      case Err
      with Ok Some assms show ?thesis by (simp add: loopBody_def Let_def split: if_splits)
    next
      case blk: (Ok b)
      show ?thesis
      proof (cases b)
        case None
        with Ok Some blk assms show ?thesis by (simp add: loopBody_def Let_def split: if_splits)
      next
        case ts: (Some ts)
        with Ok Some blk assms show ?thesis
          by (simp add: loopBody_def Let_def split: if_splits)
      qed
    qed
  qed
qed

lemma loopBody_blockNumber:
  "x \<in> set (loopBody e gt acct l) \<Longrightarrow> blockNumber x = log_blockNumber l"
  by (auto dest!: loopBody_mem simp: gameEventOf_def)

lemma loopBody_player:
  "x \<in> set (loopBody e gt acct l) \<Longrightarrow> acct \<noteq> [] \<Longrightarrow> player x = toLowerCase acct"
  by (auto dest!: loopBody_mem simp: gameEventOf_def)

subsection \<open>The decoding loop of the player view\<close>

lemma parseLogsP_Cons:
  "parseLogsP e acct (l # ls) tick acc =
     parseLogsP e acct ls (fst (loopBodyP e acct l tick)) (acc @ snd (loopBodyP e acct l tick))"
  by (simp add: loopBodyP_def Let_def split: result.split option.split)

lemma loopBodyP_mem:
  "x \<in> set (snd (loopBodyP e acct l tick)) \<Longrightarrow>
     \<exists>parsedLog ts.
        parseLog e (log_topics l) (log_data l) = Ok (Some parsedLog)
        \<and> getBlock e (log_blockNumber l) = Ok (Some ts)
        \<and> toLowerCase (arg_player parsedLog) = toLowerCase acct
        \<and> x = rollEventOf l (toLowerCase (arg_player parsedLog)) parsedLog ts"
  by (auto simp: loopBodyP_def Let_def split: result.splits option.splits if_splits)

lemma parseLogsP_mem:
  "x \<in> set (snd (parseLogsP e acct ls tick acc)) \<Longrightarrow>
     x \<in> set acc \<or> (\<exists>l\<in>set ls. \<exists>t. x \<in> set (snd (loopBodyP e acct l t)))"
proof (induction ls arbitrary: tick acc)
  case Nil
  then show ?case by simp
next
  case (Cons l ls)
  from Cons.prems Cons.IH [of "fst (loopBodyP e acct l tick)" "acc @ snd (loopBodyP e acct l tick)"]
  show ?case
    unfolding parseLogsP_Cons by auto
qed



subsection \<open>The fetch loop of the player view\<close>

lemma fetchLogsP_step:
  "i < chunksNeeded s l \<Longrightarrow> isMounted e tick \<Longrightarrow>
   getLogs e CONTRACT_ADDRESS (fst (chunkWindow s l i)) (snd (chunkWindow s l i)) = Ok logs \<Longrightarrow>
   fetchLogsP e s l i tick qs acc =
     fetchLogsP e s l (i + 1) (if i < chunksNeeded s l - 1 then tick + 2 else tick + 1)
       (qs @ [chunkWindow s l i]) (acc @ logs)"
  by (subst fetchLogsP.simps) (simp add: Let_def)

lemma fetchLogsP_fail:
  "i < chunksNeeded s l \<Longrightarrow> isMounted e tick \<Longrightarrow>
   getLogs e CONTRACT_ADDRESS (fst (chunkWindow s l i)) (snd (chunkWindow s l i)) = Err \<Longrightarrow>
   fetchLogsP e s l i tick qs acc = (tick + 1, qs @ [chunkWindow s l i], Err)"
  by (subst fetchLogsP.simps) (simp add: Let_def)

lemma fetchLogsP_stop:
  "\<not> (i < chunksNeeded s l \<and> isMounted e tick) \<Longrightarrow>
   fetchLogsP e s l i tick qs acc = (tick, qs, Ok acc)"
  by (subst fetchLogsP.simps) auto

lemma fetchLogsP_queries_bounds:
  "0 \<le> i \<Longrightarrow> q \<in> set (fst (snd (fetchLogsP e s l i tick qs acc))) \<Longrightarrow>
     q \<in> set qs \<or> (s \<le> fst q \<and> snd q \<le> l)"
proof (induction e s l i tick qs acc rule: fetchLogsP.induct)
  case (1 e s l i tick qs acc)
  show ?case
  proof (cases "i < chunksNeeded s l \<and> isMounted e tick")
    case False
    with "1.prems" show ?thesis by (simp add: fetchLogsP_stop)
  next
    case True
    define w where "w = chunkWindow s l i"
    have wb: "s \<le> fst w \<and> snd w \<le> l"
      unfolding w_def using "1.prems"(1) by (rule chunkWindow_bounds)
    show ?thesis
    proof (cases "getLogs e CONTRACT_ADDRESS (fst w) (snd w)")
      case Err
      with True "1.prems" wb show ?thesis
        by (auto simp: fetchLogsP_fail w_def)
    next
      case (Ok logs)
      have "q \<in> set (fst (snd (fetchLogsP e s l (i + 1)
               (if i < chunksNeeded s l - 1 then tick + 2 else tick + 1) (qs @ [w]) (acc @ logs))))"
        using True Ok "1.prems"(2) by (simp add: fetchLogsP_step w_def)
      moreover have "0 \<le> i + 1" using "1.prems"(1) by simp
      ultimately have "q \<in> set (qs @ [w]) \<or> (s \<le> fst q \<and> snd q \<le> l)"
        using "1.IH" [OF True w_def Ok] by blast
      with wb show ?thesis by auto
    qed
  qed
qed

lemma fetchLogsP_logs:
  "snd (snd (fetchLogsP e s l i tick qs acc)) = Ok logs \<Longrightarrow> x \<in> set logs \<Longrightarrow>
     x \<in> set acc \<or>
     (\<exists>j ls. i \<le> j \<and> j < chunksNeeded s l
        \<and> getLogs e CONTRACT_ADDRESS (fst (chunkWindow s l j)) (snd (chunkWindow s l j)) = Ok ls
        \<and> x \<in> set ls)"
proof (induction e s l i tick qs acc rule: fetchLogsP.induct)
  case (1 e s l i tick qs acc)
  show ?case
  proof (cases "i < chunksNeeded s l \<and> isMounted e tick")
    case False
    with "1.prems" show ?thesis by (simp add: fetchLogsP_stop)
  next
    case True
    define w where "w = chunkWindow s l i"
    show ?thesis
    proof (cases "getLogs e CONTRACT_ADDRESS (fst w) (snd w)")
      case Err
      with True "1.prems" show ?thesis
        by (simp add: fetchLogsP_fail w_def)
    next
      case (Ok ls0)
      have "snd (snd (fetchLogsP e s l (i + 1)
               (if i < chunksNeeded s l - 1 then tick + 2 else tick + 1) (qs @ [w]) (acc @ ls0))) = Ok logs"
        using True Ok "1.prems"(1) by (simp add: fetchLogsP_step w_def)
      from "1.IH" [OF True w_def Ok this "1.prems"(2)]
      consider "x \<in> set acc" | "x \<in> set ls0"
        | j ls where "i + 1 \<le> j" "j < chunksNeeded s l"
            "getLogs e CONTRACT_ADDRESS (fst (chunkWindow s l j)) (snd (chunkWindow s l j)) = Ok ls"
            "x \<in> set ls"
        by auto
      then show ?thesis
      proof cases
        case 1 then show ?thesis by simp
      next
        case 2
        with True Ok show ?thesis unfolding w_def by (intro disjI2 exI [of _ i] exI [of _ ls0]) simp
      next
        case 3
        then show ?thesis by (intro disjI2 exI [of _ j] exI [of _ ls]) simp
      qed
    qed
  qed
qed

lemma fetchLogsP_alive:
  "teardown e = None \<Longrightarrow>
     snd (fetchLogsP e s l i tick qs acc) = fetchLogs e CONTRACT_ADDRESS s l i qs acc"
proof (induction e s l i tick qs acc rule: fetchLogsP.induct)
  case (1 e s l i tick qs acc)
  have m: "isMounted e t" for t using "1.prems" by (simp add: isMounted_def)
  show ?case
  proof (cases "i < chunksNeeded s l")
    case False
    then show ?thesis by (simp add: fetchLogsP_stop fetchLogs.simps [of e _ s l i])
  next
    case True
    define w where "w = chunkWindow s l i"
    show ?thesis
    proof (cases "getLogs e CONTRACT_ADDRESS (fst w) (snd w)")
      case Err
      with True m show ?thesis
        by (simp add: fetchLogsP_fail w_def fetchLogs.simps [of e _ s l i] Let_def)
    next
      case (Ok ls0)
      from True m have c: "i < chunksNeeded s l \<and> isMounted e tick" by simp
      from "1.IH" [OF c w_def Ok "1.prems"] True m Ok show ?thesis
        by (simp add: fetchLogsP_step w_def fetchLogs.simps [of e _ s l i] Let_def)
    qed
  qed
qed

subsection \<open>Block numbers of the fetched logs\<close>

lemma window_logs_in_range:
  assumes honest: "\<forall>a f t logs. getLogs e a f t = Ok logs \<longrightarrow>
       (\<forall>x\<in>set logs. f \<le> log_blockNumber x \<and> log_blockNumber x \<le> t)"
    and "0 \<le> j"
    and "getLogs e a (fst (chunkWindow s l j)) (snd (chunkWindow s l j)) = Ok ls"
    and "x \<in> set ls"
  shows "s \<le> log_blockNumber x \<and> log_blockNumber x \<le> l"
proof -
  from honest assms(3,4)
  have "fst (chunkWindow s l j) \<le> log_blockNumber x \<and> log_blockNumber x \<le> snd (chunkWindow s l j)"
    by blast
  with chunkWindow_bounds [OF assms(2), of s l] show ?thesis by linarith
qed

subsection \<open>Shape of a cycle\<close>

lemma fetchEventsForContract_Ok:
  "snd (fetchEventsForContract e a gt s l acct) = Ok evs \<Longrightarrow>
     \<exists>logs. snd (fetchLogs e a s l 0 [] []) = Ok logs
        \<and> evs = concat (map (loopBody e gt acct) logs)"
  by (cases "fetchLogs e a s l 0 [] []")
     (auto simp: fetchEventsForContract_def parseLogs_eq split: result.splits)

lemma fetchAllEvents_events:
  "events (snd (fetchAllEvents e acct u)) = events u \<or>
   (\<exists>latestBlock ds cs.
      getBlockNumber e = Ok latestBlock
      \<and> snd (fetchEventsForContract e DICE_CONTRACT_ADDRESS Dice
               (max (latestBlock - TOTAL_BLOCKS_TO_CHECK) 0) latestBlock (orEmpty acct)) = Ok ds
      \<and> snd (fetchEventsForContract e COINFLIP_CONTRACT_ADDRESS Coinflip
               (max (latestBlock - TOTAL_BLOCKS_TO_CHECK) 0) latestBlock (orEmpty acct)) = Ok cs
      \<and> events (snd (fetchAllEvents e acct u)) = take MAX_RESULTS (sortByBlockDesc (ds @ cs)))"
  by (simp add: fetchAllEvents_def onStart_def onFinally_def onCatch_def promiseAll_def Let_def
      split: result.split)

lemma fetchRollEvents_events:
  "events (snd (fetchRollEvents e acct u)) = events u \<or>
   (\<exists>latestBlock tick queries allLogs.
      getBlockNumber e = Ok latestBlock
      \<and> fetchLogsP e (max (latestBlock - TOTAL_BLOCKS_TO_CHECK) 0) latestBlock 0 1 [] []
          = (tick, queries, Ok allLogs)
      \<and> events (snd (fetchRollEvents e acct u))
          = take MAX_RESULTS_player (sortByBlockDesc (snd (parseLogsP e acct allLogs tick []))))"
  by (simp add: fetchRollEvents_def onStart_def onFinally_def onCatch_def Let_def
      split: result.split prod.split)

subsection \<open>The sample provider, evaluated\<close>

lemma sampleEnv_fields:
  "getBlockNumber sampleEnv = Ok 500"
  "teardown sampleEnv = None"
  "getBlock sampleEnv n = (if n = 450 then Ok None else Ok (Some (1700000000 + n)))"
  "parseLog sampleEnv topics d =
     (if d = ''a1'' \<or> d = ''d4'' then Ok (Some (sampleArgs ''0xAb''))
      else if d = ''b2'' then Ok (Some (sampleArgs ''0xCD''))
      else Err)"
  "getLogs sampleEnv a f t =
     Ok (filter (\<lambda>l. f \<le> log_blockNumber l \<and> log_blockNumber l \<le> t)
           (if a = DICE_CONTRACT_ADDRESS then sampleLogs else []))"
  by (simp_all add: sampleEnv_def)

lemma sampleEnv_mounted: "isMounted sampleEnv t"
  by (simp add: isMounted_def sampleEnv_fields)

lemma sample_fetchLogs:
  "fetchLogs sampleEnv DICE_CONTRACT_ADDRESS 0 500 0 [] [] =
    ([(50, 500), (0, 50)],
     Ok [sampleLog 50 ''a1'', sampleLog 300 ''b2'', sampleLog 400 ''c3'', sampleLog 450 ''d4'',
         sampleLog 50 ''a1''])"
  by (simp add: fetchLogs.simps window_defs sampleEnv_fields sampleLogs_def sampleLog_def)

lemma sample_fetchLogs_coinflip:
  "fetchLogs sampleEnv COINFLIP_CONTRACT_ADDRESS 0 500 0 [] [] = ([(50, 500), (0, 50)], Ok [])"
  by (simp add: fetchLogs.simps window_defs sampleEnv_fields
      DICE_CONTRACT_ADDRESS_def COINFLIP_CONTRACT_ADDRESS_def)

lemma sample_lower: "toLowerCase ''0xAb'' = ''0xab''" "toLowerCase ''0xCD'' = ''0xcd''"
  "toLowerCase ''0xAB'' = ''0xab''"
  by code_simp+

lemma sampleLog_fields:
  "log_blockNumber (sampleLog n d) = n" "log_data (sampleLog n d) = d"
  "log_topics (sampleLog n d) = []" "log_transactionHash (sampleLog n d) = ''0x'' @ d"
  by (simp_all add: sampleLog_def)

lemma sampleArgs_player: "arg_player (sampleArgs p) = p"
  by (simp add: sampleArgs_def)

lemma gameEventOf_fields:
  "blockNumber (gameEventOf l p a gt ts) = log_blockNumber l"
  "player (gameEventOf l p a gt ts) = p"
  by (simp_all add: gameEventOf_def)

lemma rollEventOf_fields:
  "blockNumber (rollEventOf l p a ts) = log_blockNumber l"
  "player (rollEventOf l p a ts) = p"
  by (simp_all add: rollEventOf_def)

lemma sample_loopBody:
  "loopBody sampleEnv gt [] (sampleLog 50 ''a1'')
     = [gameEventOf (sampleLog 50 ''a1'') ''0xab'' (sampleArgs ''0xAb'') gt 1700000050]"
  "loopBody sampleEnv gt [] (sampleLog 300 ''b2'')
     = [gameEventOf (sampleLog 300 ''b2'') ''0xcd'' (sampleArgs ''0xCD'') gt 1700000300]"
  "loopBody sampleEnv gt acct (sampleLog 400 ''c3'') = []"
  "loopBody sampleEnv gt acct (sampleLog 450 ''d4'') = []"
  by (simp_all add: loopBody_def sampleEnv_fields sampleLog_fields sampleArgs_player
      sample_lower Let_def)

lemma sample_respectsRange: "respectsRange sampleEnv"
  by (auto simp: respectsRange_def sampleEnv_fields)

lemma sample_loopBody_filtered:
  "loopBody sampleEnv gt ''0xAB'' (sampleLog 50 ''a1'')
     = [gameEventOf (sampleLog 50 ''a1'') ''0xab'' (sampleArgs ''0xAb'') gt 1700000050]"
  "loopBody sampleEnv gt ''0xAB'' (sampleLog 300 ''b2'') = []"
  by (simp_all add: loopBody_def sampleEnv_fields sampleLog_fields sampleArgs_player
      sample_lower Let_def)

lemma sample_fetchLogsP:
  "fetchLogsP sampleEnv 0 500 0 (Suc 0) [] [] =
    (4, [(50, 500), (0, 50)],
     Ok [sampleLog 50 ''a1'', sampleLog 300 ''b2'', sampleLog 400 ''c3'', sampleLog 450 ''d4'',
         sampleLog 50 ''a1''])"
  by (simp add: fetchLogsP.simps window_defs sampleEnv_fields sampleEnv_mounted sampleLogs_def
      sampleLog_def CONTRACT_ADDRESS_def DICE_CONTRACT_ADDRESS_def)

lemma sample_loopBodyP:
  "loopBodyP sampleEnv ''0xAB'' (sampleLog 50 ''a1'') t
     = (t + 1, [rollEventOf (sampleLog 50 ''a1'') ''0xab'' (sampleArgs ''0xAb'') 1700000050])"
  "loopBodyP sampleEnv ''0xAB'' (sampleLog 300 ''b2'') t = (t, [])"
  "loopBodyP sampleEnv acct (sampleLog 400 ''c3'') t = (t, [])"
  "loopBodyP sampleEnv ''0xAB'' (sampleLog 450 ''d4'') t = (t + 1, [])"
  by (simp_all add: loopBodyP_def sampleEnv_fields sampleEnv_mounted sampleLog_fields
      sampleArgs_player sample_lower Let_def)

lemma sample_combined_all:
  "map (\<lambda>x. (blockNumber x, player x)) (events (snd (fetchAllEvents sampleEnv None initialUi)))
     = [(300, ''0xcd''), (50, ''0xab''), (50, ''0xab'')]"
  by (simp add: fetchAllEvents_def fetchEventsForContract_def sample_fetchLogs sample_fetchLogs_coinflip
        parseLogs_eq sample_loopBody sampleEnv_fields sampleEnv_mounted
        onStart_def onFinally_def onCatch_def promiseAll_def orEmpty_def
        sortByBlockDesc_def gameEventOf_fields sampleLog_fields Let_def
        TOTAL_BLOCKS_TO_CHECK_def MAX_RESULTS_def initialUi_def)

lemma sample_combined_filtered:
  "map (\<lambda>x. (blockNumber x, player x))
     (events (snd (fetchAllEvents sampleEnv (Some ''0xAB'') initialUi)))
     = [(50, ''0xab''), (50, ''0xab'')]"
  by (simp add: fetchAllEvents_def fetchEventsForContract_def sample_fetchLogs sample_fetchLogs_coinflip
        parseLogs_eq sample_loopBody sample_loopBody_filtered sampleEnv_fields sampleEnv_mounted
        onStart_def onFinally_def onCatch_def promiseAll_def orEmpty_def
        sortByBlockDesc_def gameEventOf_fields sampleLog_fields Let_def
        TOTAL_BLOCKS_TO_CHECK_def MAX_RESULTS_def initialUi_def)

lemma sample_player:
  "map (\<lambda>x. (blockNumber x, player x))
     (events (snd (fetchRollEvents sampleEnv ''0xAB'' initialUi)))
     = [(50, ''0xab''), (50, ''0xab'')]"
  by (simp add: fetchRollEvents_def sample_fetchLogsP parseLogsP_Cons sample_loopBodyP
        sampleEnv_fields sampleEnv_mounted
        onStart_def onFinally_def onCatch_def
        sortByBlockDesc_def rollEventOf_fields sampleLog_fields Let_def
        TOTAL_BLOCKS_TO_CHECK_def MAX_RESULTS_player_def initialUi_def
      del: parseLogsP.simps(2))

lemma sample_player_tick: "fst (fetchRollEvents sampleEnv ''0xAB'' initialUi) = 7"
  by (simp add: fetchRollEvents_def sample_fetchLogsP parseLogsP_Cons sample_loopBodyP
        sampleEnv_fields sampleEnv_mounted
        onStart_def onFinally_def onCatch_def Let_def
        TOTAL_BLOCKS_TO_CHECK_def del: parseLogsP.simps(2))

subsection \<open>The windows of the range 0 to 2000\<close>

text \<open>
  Claim C1, at \<open>startBlock = 0\<close>, \<open>latestBlock = 2000\<close> (\<open>MAX_CHUNK_SIZE = 450\<close>), with a
  provider that answers every query: block 1550 lies in two of the windows that the
  loop asks for, in both components. The windows \<open>[1550, 2000]\<close> and \<open>[1100, 1550]\<close>
  share it, since \<open>toBlock\<close> of iteration \<open>i + 1\<close> is \<open>fromBlock\<close> of iteration \<open>i\<close>
  (lemma \<open>consecutive_windows_overlap\<close>); the claim asks for windows that do not
  overlap. On the sample provider, whose chain has one log at the boundary block 50,
  both views display that bet twice.
\<close>

theorem boundary_block_queried_twice:
  "length (filter (inWindow 1550)
     (fst (fetchLogs (e\<lparr>getLogs := \<lambda>a f t. Ok []\<rparr>) a 0 2000 0 [] []))) = 2
   \<and> length (filter (inWindow 1550)
     (fst (snd (fetchLogsP (e\<lparr>getLogs := \<lambda>a f t. Ok [], teardown := None\<rparr>) 0 2000 0 1 [] [])))) = 2
   \<and> length (filter (\<lambda>l. log_blockNumber l = 50) sampleLogs) = 1
   \<and> map blockNumber (events (snd (fetchAllEvents sampleEnv None initialUi))) = [300, 50, 50]
   \<and> map blockNumber (events (snd (fetchRollEvents sampleEnv ''0xAB'' initialUi))) = [50, 50]"
proof -
  have "map blockNumber (events (snd (fetchAllEvents sampleEnv None initialUi))) = [300, 50, 50]"
    using arg_cong [OF sample_combined_all, of "map fst"] by (simp add: comp_def)
  moreover
  have "map blockNumber (events (snd (fetchRollEvents sampleEnv ''0xAB'' initialUi))) = [50, 50]"
    using arg_cong [OF sample_player, of "map fst"] by (simp add: comp_def)
  ultimately show ?thesis
    by (simp add: fetchLogs.simps fetchLogsP.simps window_defs inWindow_def isMounted_def
        sampleLogs_def sampleLog_def)
qed

text \<open>
  Claim C2, the same input: the loop asks for five windows, and they are
  \<open>[1550,2000], [1100,1550], [650,1100], [200,650], [0,200]\<close> in both components, not the
  windows \<open>[1550,2000], [1100,1549], [650,1099], [200,649], [0,199]\<close> of the claim.
\<close>

theorem windows_of_0_2000:
  "fst (fetchLogs (e\<lparr>getLogs := \<lambda>a f t. Ok []\<rparr>) a 0 2000 0 [] [])
     = [(1550, 2000), (1100, 1550), (650, 1100), (200, 650), (0, 200)]
   \<and> fst (snd (fetchLogsP (e\<lparr>getLogs := \<lambda>a f t. Ok [], teardown := None\<rparr>) 0 2000 0 1 [] []))
     = [(1550, 2000), (1100, 1550), (650, 1100), (200, 650), (0, 200)]
   \<and> fst (fetchLogs (e\<lparr>getLogs := \<lambda>a f t. Ok []\<rparr>) a 0 2000 0 [] [])
     \<noteq> [(1550, 2000), (1100, 1549), (650, 1099), (200, 649), (0, 199)]"
  by (simp add: fetchLogs.simps fetchLogsP.simps window_defs isMounted_def)

subsection \<open>Block numbers of the events\<close>

lemma fetched_events_in_range:
  assumes "respectsRange e"
    and "snd (fetchEventsForContract e a gt s l acct) = Ok evs"
    and "x \<in> set evs"
  shows "s \<le> blockNumber x \<and> blockNumber x \<le> l"
proof -
  from fetchEventsForContract_Ok [OF assms(2)] obtain logs
    where logs: "snd (fetchLogs e a s l 0 [] []) = Ok logs"
      and evs: "evs = concat (map (loopBody e gt acct) logs)"
    by blast
  from assms(3) evs obtain lg where lg: "lg \<in> set logs" "x \<in> set (loopBody e gt acct lg)"
    by auto
  from fetchLogs_logs [OF logs lg(1)] obtain j ls
    where j: "0 \<le> j"
      "getLogs e a (fst (chunkWindow s l j)) (snd (chunkWindow s l j)) = Ok ls" "lg \<in> set ls"
    by auto
  from assms(1) have "\<forall>a f t logs. getLogs e a f t = Ok logs \<longrightarrow>
       (\<forall>x\<in>set logs. f \<le> log_blockNumber x \<and> log_blockNumber x \<le> t)"
    by (simp add: respectsRange_def)
  from window_logs_in_range [OF this j]
  have "s \<le> log_blockNumber lg \<and> log_blockNumber lg \<le> l" .
  with loopBody_blockNumber [OF lg(2)] show ?thesis by simp
qed

lemma loopBodyP_blockNumber:
  "x \<in> set (snd (loopBodyP e acct l t)) \<Longrightarrow> blockNumber x = log_blockNumber l"
  by (auto dest!: loopBodyP_mem simp: rollEventOf_def)

lemma loopBodyP_player:
  "x \<in> set (snd (loopBodyP e acct l t)) \<Longrightarrow> player x = toLowerCase acct"
  by (auto dest!: loopBodyP_mem simp: rollEventOf_def)

lemma fetchAllEvents_in_range:
  assumes "respectsRange e" and "getBlockNumber e = Ok latestBlock"
    and "events (snd (fetchAllEvents e acct u)) \<noteq> events u"
    and "x \<in> set (events (snd (fetchAllEvents e acct u)))"
  shows "max (latestBlock - TOTAL_BLOCKS_TO_CHECK) 0 \<le> blockNumber x \<and> blockNumber x \<le> latestBlock"
proof -
  let ?s = "max (latestBlock - TOTAL_BLOCKS_TO_CHECK) 0"
  from fetchAllEvents_events [of e acct u] assms(2,3) obtain ds cs
    where ds: "snd (fetchEventsForContract e DICE_CONTRACT_ADDRESS Dice ?s latestBlock (orEmpty acct)) = Ok ds"
      and cs: "snd (fetchEventsForContract e COINFLIP_CONTRACT_ADDRESS Coinflip ?s latestBlock (orEmpty acct)) = Ok cs"
      and ev: "events (snd (fetchAllEvents e acct u)) = take MAX_RESULTS (sortByBlockDesc (ds @ cs))"
    by auto
  from assms(4) ev have "x \<in> set (ds @ cs)" by (auto dest: display_subset)
  then consider "x \<in> set ds" | "x \<in> set cs" by auto
  then show ?thesis
  proof cases
    case 1
    from fetched_events_in_range [OF assms(1) ds 1] show ?thesis .
  next
    case 2
    from fetched_events_in_range [OF assms(1) cs 2] show ?thesis .
  qed
qed

lemma fetchRollEvents_in_range:
  assumes "respectsRange e" and "getBlockNumber e = Ok latestBlock"
    and "events (snd (fetchRollEvents e acct u)) \<noteq> events u"
    and "x \<in> set (events (snd (fetchRollEvents e acct u)))"
  shows "max (latestBlock - TOTAL_BLOCKS_TO_CHECK) 0 \<le> blockNumber x \<and> blockNumber x \<le> latestBlock"
proof -
  let ?s = "max (latestBlock - TOTAL_BLOCKS_TO_CHECK) 0"
  from fetchRollEvents_events [of e acct u] assms(2,3) obtain tick queries allLogs
    where fl: "fetchLogsP e ?s latestBlock 0 1 [] [] = (tick, queries, Ok allLogs)"
      and ev: "events (snd (fetchRollEvents e acct u))
          = take MAX_RESULTS_player (sortByBlockDesc (snd (parseLogsP e acct allLogs tick [])))"
    by auto
  from assms(4) ev have "x \<in> set (snd (parseLogsP e acct allLogs tick []))"
    by (auto dest: display_subset)
  from parseLogsP_mem [OF this] obtain lg t
    where lg: "lg \<in> set allLogs" "x \<in> set (snd (loopBodyP e acct lg t))"
    by auto
  from fl have "snd (snd (fetchLogsP e ?s latestBlock 0 1 [] [])) = Ok allLogs" by simp
  from fetchLogsP_logs [OF this lg(1)] obtain j ls
    where j: "0 \<le> j"
      "getLogs e CONTRACT_ADDRESS (fst (chunkWindow ?s latestBlock j)) (snd (chunkWindow ?s latestBlock j)) = Ok ls"
      "lg \<in> set ls"
    by auto
  from assms(1) have "\<forall>a f t logs. getLogs e a f t = Ok logs \<longrightarrow>
       (\<forall>x\<in>set logs. f \<le> log_blockNumber x \<and> log_blockNumber x \<le> t)"
    by (simp add: respectsRange_def)
  from window_logs_in_range [OF this j]
  have "?s \<le> log_blockNumber lg \<and> log_blockNumber lg \<le> latestBlock" .
  with loopBodyP_blockNumber [OF lg(2)] show ?thesis by simp
qed

lemma fetchEventsForContract_queries:
  "fst (fetchEventsForContract e a gt s l acct) = fst (fetchLogs e a s l 0 [] [])"
  by (cases "fetchLogs e a s l 0 [] []")
     (simp add: fetchEventsForContract_def split: result.split)

text \<open>
  Claim C4. Every query of a cycle asks for a range inside \<open>[startBlock, latestBlock]\<close>
  (this holds for every provider). If the provider answers a query only with logs of
  the range asked for, every event returned by \<open>fetchEventsForContract\<close>, and every
  event that a cycle of either view newly stores, has its block number in
  \<open>[startBlock, latestBlock]\<close>, where \<open>startBlock = max (latestBlock - 2000) 0\<close> for the
  \<open>latestBlock\<close> read at the start of the cycle.
\<close>

theorem events_within_scanned_range:
  assumes "respectsRange e"
  shows "(\<forall>q\<in>set (fst (fetchEventsForContract e a gt startBlock latestBlock acct)).
            startBlock \<le> fst q \<and> snd q \<le> latestBlock)
     \<and> (\<forall>q\<in>set (fst (snd (fetchLogsP e startBlock latestBlock 0 tick [] []))).
            startBlock \<le> fst q \<and> snd q \<le> latestBlock)
     \<and> (\<forall>evs. snd (fetchEventsForContract e a gt startBlock latestBlock acct) = Ok evs \<longrightarrow>
            (\<forall>x\<in>set evs. startBlock \<le> blockNumber x \<and> blockNumber x \<le> latestBlock))
     \<and> (\<forall>latest. getBlockNumber e = Ok latest \<longrightarrow>
            events (snd (fetchAllEvents e currentAccount u)) = events u
            \<or> (\<forall>x\<in>set (events (snd (fetchAllEvents e currentAccount u))).
                  max (latest - 2000) 0 \<le> blockNumber x \<and> blockNumber x \<le> latest))
     \<and> (\<forall>latest. getBlockNumber e = Ok latest \<longrightarrow>
            events (snd (fetchRollEvents e account u')) = events u'
            \<or> (\<forall>x\<in>set (events (snd (fetchRollEvents e account u'))).
                  max (latest - 2000) 0 \<le> blockNumber x \<and> blockNumber x \<le> latest))"
proof (intro conjI allI impI ballI)
  fix q assume "q \<in> set (fst (fetchEventsForContract e a gt startBlock latestBlock acct))"
  then have "q \<in> set (fst (fetchLogs e a startBlock latestBlock 0 [] []))"
    by (simp add: fetchEventsForContract_queries)
  from fetchLogs_queries_bounds [OF _ this]
  show "startBlock \<le> fst q" "snd q \<le> latestBlock" by simp_all
next
  fix q assume "q \<in> set (fst (snd (fetchLogsP e startBlock latestBlock 0 tick [] [])))"
  from fetchLogsP_queries_bounds [OF _ this]
  show "startBlock \<le> fst q" "snd q \<le> latestBlock" by simp_all
next
  fix evs x
  assume "snd (fetchEventsForContract e a gt startBlock latestBlock acct) = Ok evs" "x \<in> set evs"
  from fetched_events_in_range [OF assms this]
  show "startBlock \<le> blockNumber x" "blockNumber x \<le> latestBlock" by simp_all
next
  fix latest assume "getBlockNumber e = Ok latest"
  from fetchAllEvents_in_range [OF assms this, of currentAccount u]
  show "events (snd (fetchAllEvents e currentAccount u)) = events u
            \<or> (\<forall>x\<in>set (events (snd (fetchAllEvents e currentAccount u))).
                  max (latest - 2000) 0 \<le> blockNumber x \<and> blockNumber x \<le> latest)"
    by (auto simp: TOTAL_BLOCKS_TO_CHECK_def)
next
  fix latest assume "getBlockNumber e = Ok latest"
  from fetchRollEvents_in_range [OF assms this, of account u']
  show "events (snd (fetchRollEvents e account u')) = events u'
            \<or> (\<forall>x\<in>set (events (snd (fetchRollEvents e account u'))).
                  max (latest - 2000) 0 \<le> blockNumber x \<and> blockNumber x \<le> latest)"
    by (auto simp: TOTAL_BLOCKS_TO_CHECK_def)
qed

theorem events_within_scanned_range_witness:
  "respectsRange sampleEnv
   \<and> getBlockNumber sampleEnv = Ok 500
   \<and> fst (fetchEventsForContract sampleEnv DICE_CONTRACT_ADDRESS Dice 0 500 []) = [(50, 500), (0, 50)]
   \<and> map blockNumber (events (snd (fetchAllEvents sampleEnv None initialUi))) = [300, 50, 50]
   \<and> list_all (\<lambda>x. 0 \<le> blockNumber x \<and> blockNumber x \<le> 500)
        (events (snd (fetchAllEvents sampleEnv None initialUi)))
   \<and> map blockNumber (events (snd (fetchRollEvents sampleEnv ''0xAB'' initialUi))) = [50, 50]
   \<and> list_all (\<lambda>x. 0 \<le> blockNumber x \<and> blockNumber x \<le> 500)
        (events (snd (fetchRollEvents sampleEnv ''0xAB'' initialUi)))"
proof -
  have c: "map blockNumber (events (snd (fetchAllEvents sampleEnv None initialUi))) = [300, 50, 50]"
    using arg_cong [OF sample_combined_all, of "map fst"] by (simp add: comp_def)
  have p: "map blockNumber (events (snd (fetchRollEvents sampleEnv ''0xAB'' initialUi))) = [50, 50]"
    using arg_cong [OF sample_player, of "map fst"] by (simp add: comp_def)
  have q: "fst (fetchEventsForContract sampleEnv DICE_CONTRACT_ADDRESS Dice 0 500 []) = [(50, 500), (0, 50)]"
    by (simp add: fetchEventsForContract_queries sample_fetchLogs)
  have i: "events (initialUi :: gameEvent ui) = []" "events (initialUi :: rollEvent ui) = []"
    by (simp_all add: initialUi_def)
  from c i have c': "events (snd (fetchAllEvents sampleEnv None initialUi)) \<noteq> events initialUi"
    by auto
  from p i have p': "events (snd (fetchRollEvents sampleEnv ''0xAB'' initialUi)) \<noteq> events initialUi"
    by auto
  from events_within_scanned_range [OF sample_respectsRange,
      of DICE_CONTRACT_ADDRESS Dice 0 500 "[]" 1 None initialUi "''0xAB''" initialUi]
    c' p' sampleEnv_fields(1)
  have "list_all (\<lambda>x. 0 \<le> blockNumber x \<and> blockNumber x \<le> 500)
          (events (snd (fetchAllEvents sampleEnv None initialUi)))"
    "list_all (\<lambda>x. 0 \<le> blockNumber x \<and> blockNumber x \<le> 500)
          (events (snd (fetchRollEvents sampleEnv ''0xAB'' initialUi)))"
    by (simp_all add: list_all_iff)
  with c p q sample_respectsRange sampleEnv_fields(1) show ?thesis by simp
qed

subsection \<open>The player filter\<close>

text \<open>
  Claim C5. With a participant filter \<open>P\<close> (in the combined view: a non-empty
  \<open>currentAccount\<close>; in the player view: always), every event returned by
  \<open>fetchEventsForContract\<close> and every event that a cycle newly stores has the player
  field \<open>P.toLowerCase()\<close>; so the two agree after lowercasing both sides, and no event
  of another player is returned.
\<close>

theorem filter_keeps_only_player:
  "(P \<noteq> [] \<longrightarrow>
      (\<forall>evs. snd (fetchEventsForContract e a gt startBlock latestBlock P) = Ok evs \<longrightarrow>
         (\<forall>x\<in>set evs. player x = toLowerCase P \<and> toLowerCase (player x) = toLowerCase P)))
   \<and> (P \<noteq> [] \<longrightarrow>
        events (snd (fetchAllEvents e (Some P) u)) = events u
        \<or> (\<forall>x\<in>set (events (snd (fetchAllEvents e (Some P) u))).
              player x = toLowerCase P \<and> toLowerCase (player x) = toLowerCase P))
   \<and> (events (snd (fetchRollEvents e P u')) = events u'
        \<or> (\<forall>x\<in>set (events (snd (fetchRollEvents e P u'))).
              player x = toLowerCase P \<and> toLowerCase (player x) = toLowerCase P))"
proof (intro conjI impI allI ballI)
  fix evs x
  assume P: "P \<noteq> []"
    and "snd (fetchEventsForContract e a gt startBlock latestBlock P) = Ok evs" "x \<in> set evs"
  with fetchEventsForContract_Ok obtain lg where "x \<in> set (loopBody e gt P lg)"
    by fastforce
  from loopBody_player [OF this P]
  show "player x = toLowerCase P" "toLowerCase (player x) = toLowerCase P"
    by (simp_all add: toLowerCase_idem)
next
  assume P: "P \<noteq> []"
  have "player x = toLowerCase P"
    if "events (snd (fetchAllEvents e (Some P) u)) \<noteq> events u"
      and "x \<in> set (events (snd (fetchAllEvents e (Some P) u)))" for x
  proof -
    from fetchAllEvents_events [of e "Some P" u] that(1) obtain s l ds cs
      where ds: "snd (fetchEventsForContract e DICE_CONTRACT_ADDRESS Dice s l (orEmpty (Some P))) = Ok ds"
        and cs: "snd (fetchEventsForContract e COINFLIP_CONTRACT_ADDRESS Coinflip s l (orEmpty (Some P))) = Ok cs"
        and ev: "events (snd (fetchAllEvents e (Some P) u)) = take MAX_RESULTS (sortByBlockDesc (ds @ cs))"
      by auto
    have oe: "orEmpty (Some P) = P" by (simp add: orEmpty_def)
    from that(2) ev have "x \<in> set ds \<or> x \<in> set cs" by (auto dest: display_subset)
    with fetchEventsForContract_Ok [OF ds] fetchEventsForContract_Ok [OF cs]
    obtain g lg where "x \<in> set (loopBody e g P lg)"
      unfolding oe by fastforce
    from loopBody_player [OF this P] show ?thesis .
  qed
  then show "events (snd (fetchAllEvents e (Some P) u)) = events u
        \<or> (\<forall>x\<in>set (events (snd (fetchAllEvents e (Some P) u))).
              player x = toLowerCase P \<and> toLowerCase (player x) = toLowerCase P)"
    by (auto simp: toLowerCase_idem)
next
  have "player x = toLowerCase P"
    if "events (snd (fetchRollEvents e P u')) \<noteq> events u'"
      and "x \<in> set (events (snd (fetchRollEvents e P u')))" for x
  proof -
    from fetchRollEvents_events [of e P u'] that(1) obtain tick allLogs
      where ev: "events (snd (fetchRollEvents e P u'))
          = take MAX_RESULTS_player (sortByBlockDesc (snd (parseLogsP e P allLogs tick [])))"
      by auto
    from that(2) ev have "x \<in> set (snd (parseLogsP e P allLogs tick []))"
      by (auto dest: display_subset)
    from parseLogsP_mem [OF this] obtain lg t where "x \<in> set (snd (loopBodyP e P lg t))"
      by auto
    then show ?thesis by (rule loopBodyP_player)
  qed
  then show "events (snd (fetchRollEvents e P u')) = events u'
        \<or> (\<forall>x\<in>set (events (snd (fetchRollEvents e P u'))).
              player x = toLowerCase P \<and> toLowerCase (player x) = toLowerCase P)"
    by (auto simp: toLowerCase_idem)
qed

theorem filter_keeps_only_player_witness:
  "''0xAB'' \<noteq> []
   \<and> map player (events (snd (fetchAllEvents sampleEnv (Some ''0xAB'') initialUi))) = [''0xab'', ''0xab'']
   \<and> list_all (\<lambda>x. toLowerCase (player x) = toLowerCase ''0xAB'')
        (events (snd (fetchAllEvents sampleEnv (Some ''0xAB'') initialUi)))
   \<and> map player (events (snd (fetchRollEvents sampleEnv ''0xAB'' initialUi))) = [''0xab'', ''0xab'']
   \<and> list_all (\<lambda>x. toLowerCase (player x) = toLowerCase ''0xAB'')
        (events (snd (fetchRollEvents sampleEnv ''0xAB'' initialUi)))"
proof -
  have c: "map player (events (snd (fetchAllEvents sampleEnv (Some ''0xAB'') initialUi))) = [''0xab'', ''0xab'']"
    using arg_cong [OF sample_combined_filtered, of "map snd"] by (simp add: comp_def)
  have p: "map player (events (snd (fetchRollEvents sampleEnv ''0xAB'' initialUi))) = [''0xab'', ''0xab'']"
    using arg_cong [OF sample_player, of "map snd"] by (simp add: comp_def)
  have i: "events (initialUi :: gameEvent ui) = []" "events (initialUi :: rollEvent ui) = []"
    by (simp_all add: initialUi_def)
  from c i have c': "events (snd (fetchAllEvents sampleEnv (Some ''0xAB'') initialUi)) \<noteq> events initialUi"
    by auto
  from p i have p': "events (snd (fetchRollEvents sampleEnv ''0xAB'' initialUi)) \<noteq> events initialUi"
    by auto
  from filter_keeps_only_player [of "''0xAB''" sampleEnv _ _ _ _ initialUi initialUi] c' p'
  have "list_all (\<lambda>x. toLowerCase (player x) = toLowerCase ''0xAB'')
          (events (snd (fetchAllEvents sampleEnv (Some ''0xAB'') initialUi)))"
    "list_all (\<lambda>x. toLowerCase (player x) = toLowerCase ''0xAB'')
          (events (snd (fetchRollEvents sampleEnv ''0xAB'' initialUi)))"
    by (simp_all add: list_all_iff toLowerCase_idem)
  with c p show ?thesis by simp
qed

subsection \<open>Failures inside the decoding loop\<close>

lemma fetchLogs_all_Ok:
  "\<forall>a f t. getLogs e a f t \<noteq> Err \<Longrightarrow> snd (fetchLogs e a s l i qs acc) \<noteq> Err"
  by (simp add: fetchLogs_Err_iff)







subsection \<open>Failing queries\<close>

lemma set_chunkWindows:
  "set (chunkWindows s l i) = {chunkWindow s l j | j. i \<le> j \<and> j < chunksNeeded s l}"
proof (induction s l i rule: chunkWindows.induct)
  case (1 s l i)
  show ?case
  proof (cases "i < chunksNeeded s l")
    case False
    then show ?thesis by (auto simp: chunkWindows.simps [of s l i])
  next
    case True
    have "{chunkWindow s l j | j. i \<le> j \<and> j < chunksNeeded s l}
        = insert (chunkWindow s l i) {chunkWindow s l j | j. i + 1 \<le> j \<and> j < chunksNeeded s l}"
      (is "?A = insert _ ?B")
    proof
      show "?A \<subseteq> insert (chunkWindow s l i) ?B"
      proof
        fix w assume "w \<in> ?A"
        then obtain j where j: "w = chunkWindow s l j" "i \<le> j" "j < chunksNeeded s l" by blast
        then have "j = i \<or> i + 1 \<le> j" by linarith
        with j show "w \<in> insert (chunkWindow s l i) ?B" by blast
      qed
    next
      show "insert (chunkWindow s l i) ?B \<subseteq> ?A"
      proof
        fix w assume "w \<in> insert (chunkWindow s l i) ?B"
        then consider "w = chunkWindow s l i"
          | j where "w = chunkWindow s l j" "i + 1 \<le> j" "j < chunksNeeded s l" by blast
        then show "w \<in> ?A"
        proof cases
          case 1 with True show ?thesis by blast
        next
          case 2
          then have "i \<le> j" by linarith
          with 2 show ?thesis by blast
        qed
      qed
    qed
    with True "1.IH" [OF True] show ?thesis
      by (simp add: chunkWindows.simps [of s l i])
  qed
qed

lemma queryFails_iff:
  "queryFails e a latestBlock \<longleftrightarrow>
     snd (fetchLogs e a (max (latestBlock - TOTAL_BLOCKS_TO_CHECK) 0) latestBlock 0 [] []) = Err"
  unfolding queryFails_def list_ex_iff set_chunkWindows fetchLogs_Err_iff by blast

lemma fetchEventsForContract_Err:
  "snd (fetchEventsForContract e a gt s l acct) = Err \<longleftrightarrow> snd (fetchLogs e a s l 0 [] []) = Err"
  by (cases "fetchLogs e a s l 0 [] []")
     (auto simp: fetchEventsForContract_def split: result.splits)

lemma record_after_failure:
  "u\<lparr>error := None, loading := True, error := Some m, loading := False\<rparr>
     = u\<lparr>error := Some m, loading := False\<rparr>"
  by simp

lemma fetchAllEvents_failure:
  assumes alive: "teardown e = None"
    and fails: "getBlockNumber e = Err
       \<or> (\<exists>latestBlock. getBlockNumber e = Ok latestBlock
            \<and> (queryFails e DICE_CONTRACT_ADDRESS latestBlock
                 \<or> queryFails e COINFLIP_CONTRACT_ADDRESS latestBlock))"
  shows "snd (fetchAllEvents e wallet u) = u\<lparr>error := Some FETCH_ERROR, loading := False\<rparr>"
proof -
  have m: "isMounted e t" for t using alive by (simp add: isMounted_def)
  from fails show ?thesis
  proof
    assume "getBlockNumber e = Err"
    then show ?thesis
      by (simp add: fetchAllEvents_def onStart_def onFinally_def onCatch_def m)
  next
    assume "\<exists>latestBlock. getBlockNumber e = Ok latestBlock
            \<and> (queryFails e DICE_CONTRACT_ADDRESS latestBlock
                 \<or> queryFails e COINFLIP_CONTRACT_ADDRESS latestBlock)"
    then obtain latestBlock where lb: "getBlockNumber e = Ok latestBlock"
      and qf: "queryFails e DICE_CONTRACT_ADDRESS latestBlock
                 \<or> queryFails e COINFLIP_CONTRACT_ADDRESS latestBlock"
      by blast
    let ?s = "max (latestBlock - TOTAL_BLOCKS_TO_CHECK) 0"
    from qf have "promiseAll
        (snd (fetchEventsForContract e DICE_CONTRACT_ADDRESS Dice ?s latestBlock (orEmpty wallet)))
        (snd (fetchEventsForContract e COINFLIP_CONTRACT_ADDRESS Coinflip ?s latestBlock (orEmpty wallet)))
        = Err"
    proof -
      from qf have "snd (fetchEventsForContract e DICE_CONTRACT_ADDRESS Dice ?s latestBlock (orEmpty wallet)) = Err
        \<or> snd (fetchEventsForContract e COINFLIP_CONTRACT_ADDRESS Coinflip ?s latestBlock (orEmpty wallet)) = Err"
        by (simp add: queryFails_iff fetchEventsForContract_Err)
      then show ?thesis
        by (auto simp: promiseAll_def split: result.split)
    qed
    with lb show ?thesis
      by (simp add: fetchAllEvents_def onStart_def onFinally_def onCatch_def m Let_def)
  qed
qed

lemma fetchRollEvents_failure:
  assumes alive: "teardown e = None"
    and fails: "getBlockNumber e = Err
       \<or> (\<exists>latestBlock. getBlockNumber e = Ok latestBlock
            \<and> queryFails e CONTRACT_ADDRESS latestBlock)"
  shows "snd (fetchRollEvents e account u) = u\<lparr>error := Some FETCH_ERROR, loading := False\<rparr>"
proof -
  have m: "isMounted e t" for t using alive by (simp add: isMounted_def)
  from fails show ?thesis
  proof
    assume "getBlockNumber e = Err"
    then show ?thesis
      by (simp add: fetchRollEvents_def onStart_def onFinally_def onCatch_def m)
  next
    assume "\<exists>latestBlock. getBlockNumber e = Ok latestBlock
            \<and> queryFails e CONTRACT_ADDRESS latestBlock"
    then obtain latestBlock where lb: "getBlockNumber e = Ok latestBlock"
      and qf: "queryFails e CONTRACT_ADDRESS latestBlock"
      by blast
    let ?s = "max (latestBlock - TOTAL_BLOCKS_TO_CHECK) 0"
    obtain t q r where fl: "fetchLogsP e ?s latestBlock 0 1 [] [] = (t, q, r)"
      by (cases "fetchLogsP e ?s latestBlock 0 1 [] []") auto
    from qf have "snd (snd (fetchLogsP e ?s latestBlock 0 1 [] [])) = Err"
      by (simp add: queryFails_iff fetchLogsP_alive [OF alive])
    with fl have "r = Err" by simp
    with lb fl show ?thesis
      by (simp add: fetchRollEvents_def onStart_def onFinally_def onCatch_def m Let_def)
  qed
qed

text \<open>
  Claim C7. In a view that is still mounted, when the block-height query is rejected or
  any log query of the cycle is rejected, the cycle ends with the one message
  \<open>Failed to fetch Sei EVM events\<close> and with the list that was displayed before: the
  logs of the queries that had succeeded are dropped.
\<close>

theorem query_failure_aborts_cycle:
  assumes "teardown e = None"
  shows "(getBlockNumber e = Err
           \<or> (\<exists>latestBlock. getBlockNumber e = Ok latestBlock
                \<and> (queryFails e DICE_CONTRACT_ADDRESS latestBlock
                     \<or> queryFails e COINFLIP_CONTRACT_ADDRESS latestBlock))
          \<longrightarrow> snd (fetchAllEvents e wallet u)
                = u\<lparr>error := Some ''Failed to fetch Sei EVM events'', loading := False\<rparr>
              \<and> events (snd (fetchAllEvents e wallet u)) = events u)
     \<and> (getBlockNumber e = Err
           \<or> (\<exists>latestBlock. getBlockNumber e = Ok latestBlock
                \<and> queryFails e CONTRACT_ADDRESS latestBlock)
          \<longrightarrow> snd (fetchRollEvents e account u')
                = u'\<lparr>error := Some ''Failed to fetch Sei EVM events'', loading := False\<rparr>
              \<and> events (snd (fetchRollEvents e account u')) = events u')"
  using fetchAllEvents_failure [OF assms, of wallet u] fetchRollEvents_failure [OF assms, of account u']
  by (auto simp: FETCH_ERROR_def)

lemma failingEnv_fields:
  "getBlockNumber failingEnv = Ok 500"
  "teardown failingEnv = None"
  "getLogs failingEnv a f t = (if f = 0 then Err else getLogs sampleEnv a f t)"
  by (simp_all add: failingEnv_def sampleEnv_fields)

lemma failingEnv_queryFails:
  "queryFails failingEnv DICE_CONTRACT_ADDRESS 500" "queryFails failingEnv CONTRACT_ADDRESS 500"
  by (simp_all add: queryFails_def chunkWindows.simps window_defs failingEnv_fields
      TOTAL_BLOCKS_TO_CHECK_def)

theorem query_failure_aborts_cycle_witness:
  "teardown failingEnv = None
   \<and> getBlockNumber failingEnv = Ok 500
   \<and> getLogs failingEnv DICE_CONTRACT_ADDRESS 50 500 \<noteq> Err
   \<and> getLogs failingEnv DICE_CONTRACT_ADDRESS 0 50 = Err
   \<and> queryFails failingEnv DICE_CONTRACT_ADDRESS 500
   \<and> queryFails failingEnv CONTRACT_ADDRESS 500
   \<and> events (snd (fetchAllEvents failingEnv None (shown oldGame))) = [oldGame]
   \<and> error (snd (fetchAllEvents failingEnv None (shown oldGame)))
       = Some ''Failed to fetch Sei EVM events''
   \<and> events (snd (fetchRollEvents failingEnv ''0xAB'' (shown oldRoll))) = [oldRoll]
   \<and> error (snd (fetchRollEvents failingEnv ''0xAB'' (shown oldRoll)))
       = Some ''Failed to fetch Sei EVM events''"
  using query_failure_aborts_cycle [OF failingEnv_fields(2), of None "shown oldGame" "''0xAB''" "shown oldRoll"]
    failingEnv_queryFails
  by (simp add: failingEnv_fields sampleEnv_fields shown_def)

subsection \<open>Teardown\<close>

text \<open>
  Claim C9. Every \<open>setEvents\<close>, \<open>setError\<close> and \<open>setLoading\<close> of a cycle is guarded by a
  read of \<open>isMounted\<close> with no suspension point between the read and the call. So a
  cycle whose view is torn down while it is pending (during its \<open>k\<close>-th suspension
  point, \<open>k\<close> at most the number of suspension points of the cycle) publishes neither
  results nor an error: the displayed state stays as the still mounted first statement
  of the cycle left it, in both components.
\<close>

theorem torn_down_cycle_publishes_nothing:
  assumes "teardown e = Some k"
  shows "(k \<le> fst (fetchAllEvents e wallet u) \<longrightarrow>
            snd (fetchAllEvents e wallet u)
              = (if k = 0 then u else u\<lparr>error := None, loading := True\<rparr>))
     \<and> (k \<le> fst (fetchRollEvents e account u') \<longrightarrow>
            snd (fetchRollEvents e account u')
              = (if k = 0 then u' else u'\<lparr>error := None, loading := True\<rparr>))"
proof (intro conjI impI)
  have m: "isMounted e t \<longleftrightarrow> t < k" for t using assms by (simp add: isMounted_def)
  assume "k \<le> fst (fetchAllEvents e wallet u)"
  then show "snd (fetchAllEvents e wallet u)
              = (if k = 0 then u else u\<lparr>error := None, loading := True\<rparr>)"
    by (auto simp: fetchAllEvents_def onStart_def onFinally_def onCatch_def m Let_def
        split: result.splits if_splits)
next
  have m: "isMounted e t \<longleftrightarrow> t < k" for t using assms by (simp add: isMounted_def)
  assume "k \<le> fst (fetchRollEvents e account u')"
  then show "snd (fetchRollEvents e account u')
              = (if k = 0 then u' else u'\<lparr>error := None, loading := True\<rparr>)"
    by (auto simp: fetchRollEvents_def onStart_def onFinally_def onCatch_def m Let_def
        split: result.splits if_splits prod.splits)
qed

lemma tornEnv_fields:
  "getBlockNumber tornEnv = Ok 500"
  "teardown tornEnv = Some 2"
  "getLogs tornEnv = getLogs sampleEnv"
  by (simp_all add: tornEnv_def sampleEnv_fields)

lemma tornEnv_mounted: "isMounted tornEnv t \<longleftrightarrow> t < 2"
  by (simp add: isMounted_def tornEnv_fields)

lemma tornEnv_fetchLogsP:
  "fetchLogsP tornEnv 0 500 0 (Suc 0) [] [] =
    (3, [(50, 500)],
     Ok [sampleLog 50 ''a1'', sampleLog 300 ''b2'', sampleLog 400 ''c3'', sampleLog 450 ''d4''])"
  by (simp add: fetchLogsP.simps window_defs tornEnv_fields tornEnv_mounted sampleEnv_fields
      sampleLogs_def sampleLog_def CONTRACT_ADDRESS_def DICE_CONTRACT_ADDRESS_def)

lemma tornEnv_ticks:
  "fst (fetchAllEvents tornEnv None (shown oldGame)) = 2"
  "fst (fetchRollEvents tornEnv ''0xAB'' (shown oldRoll)) = 3"
  by (simp_all add: fetchAllEvents_def fetchRollEvents_def tornEnv_fields tornEnv_mounted
      tornEnv_fetchLogsP onStart_def onFinally_def onCatch_def Let_def TOTAL_BLOCKS_TO_CHECK_def
      split: result.split)

theorem torn_down_cycle_publishes_nothing_witness:
  "teardown tornEnv = Some 2
   \<and> fst (fetchAllEvents tornEnv None (shown oldGame)) = 2
   \<and> snd (fetchAllEvents tornEnv None (shown oldGame)) = \<lparr>events = [oldGame], loading = True, error = None\<rparr>
   \<and> fst (fetchRollEvents tornEnv ''0xAB'' (shown oldRoll)) = 3
   \<and> snd (fetchRollEvents tornEnv ''0xAB'' (shown oldRoll)) = \<lparr>events = [oldRoll], loading = True, error = None\<rparr>"
  using torn_down_cycle_publishes_nothing [OF tornEnv_fields(2), of None "shown oldGame" "''0xAB''" "shown oldRoll"]
    tornEnv_ticks tornEnv_fields(2)
  by (simp add: shown_def)

subsection \<open>No wallet: no filter\<close>

lemma loopBody_unfiltered:
  "concat (map (loopBody e gt []) logs) = decodeAll e gt logs"
  unfolding decodeAll_def
  by (rule arg_cong [where f = concat], rule map_cong [OF refl])
     (simp add: loopBody_def Let_def split: result.split option.split)

lemma fetchEventsForContract_unfiltered:
  "snd (fetchEventsForContract e a gt s l []) =
     (case snd (fetchLogs e a s l 0 [] []) of
        Err \<Rightarrow> Err
      | Ok allLogs \<Rightarrow> Ok (decodeAll e gt allLogs))"
  by (cases "fetchLogs e a s l 0 [] []")
     (simp add: fetchEventsForContract_def parseLogs_eq loopBody_unfiltered split: result.split)

text \<open>
  Claim C10. Without a wallet \<open>currentAccount\<close> is \<open>undefined\<close> and the filter passed
  on is the empty string. For the empty string the test
  \<open>currentAccount && player !== ...\<close> never discards a log: what \<open>fetchEventsForContract\<close>
  returns, and what a cycle displays (up to the cap of 50), are the events of all logs
  that decode and whose block resolves, of every player. On the sample provider the
  events of both players are displayed.
\<close>

theorem no_wallet_shows_every_player:
  "orEmpty None = []
   \<and> snd (fetchEventsForContract e a gt startBlock latestBlock (orEmpty None)) =
       (case snd (fetchLogs e a startBlock latestBlock 0 [] []) of
          Err \<Rightarrow> Err
        | Ok allLogs \<Rightarrow> Ok (decodeAll e gt allLogs))
   \<and> events (snd (fetchAllEvents e None u)) =
       (case getBlockNumber e of
          Err \<Rightarrow> events u
        | Ok latest \<Rightarrow>
            if isMounted e 2
            then (case promiseAll
                    (snd (fetchLogs e DICE_CONTRACT_ADDRESS (max (latest - 2000) 0) latest 0 [] []))
                    (snd (fetchLogs e COINFLIP_CONTRACT_ADDRESS (max (latest - 2000) 0) latest 0 [] [])) of
                    Err \<Rightarrow> events u
                  | Ok (diceLogs, coinflipLogs) \<Rightarrow>
                      take 50 (sortByBlockDesc
                        (decodeAll e Dice diceLogs @ decodeAll e Coinflip coinflipLogs)))
            else events u)
   \<and> map player (events (snd (fetchAllEvents sampleEnv None initialUi)))
       = [''0xcd'', ''0xab'', ''0xab'']"
proof (intro conjI)
  show oe: "orEmpty None = []" by (simp add: orEmpty_def)
  show "snd (fetchEventsForContract e a gt startBlock latestBlock (orEmpty None)) =
       (case snd (fetchLogs e a startBlock latestBlock 0 [] []) of
          Err \<Rightarrow> Err
        | Ok allLogs \<Rightarrow> Ok (decodeAll e gt allLogs))"
    unfolding oe by (rule fetchEventsForContract_unfiltered)
  have m: "isMounted e 2 \<Longrightarrow> isMounted e 1"
    by (simp add: isMounted_def split: option.splits)
  show "events (snd (fetchAllEvents e None u)) =
       (case getBlockNumber e of
          Err \<Rightarrow> events u
        | Ok latest \<Rightarrow>
            if isMounted e 2
            then (case promiseAll
                    (snd (fetchLogs e DICE_CONTRACT_ADDRESS (max (latest - 2000) 0) latest 0 [] []))
                    (snd (fetchLogs e COINFLIP_CONTRACT_ADDRESS (max (latest - 2000) 0) latest 0 [] [])) of
                    Err \<Rightarrow> events u
                  | Ok (diceLogs, coinflipLogs) \<Rightarrow>
                      take 50 (sortByBlockDesc
                        (decodeAll e Dice diceLogs @ decodeAll e Coinflip coinflipLogs)))
            else events u)"
    using m
    by (auto simp: fetchAllEvents_def oe fetchEventsForContract_unfiltered onStart_def onFinally_def
        onCatch_def promiseAll_def Let_def TOTAL_BLOCKS_TO_CHECK_def MAX_RESULTS_def
        split: result.splits)
  show "map player (events (snd (fetchAllEvents sampleEnv None initialUi)))
       = [''0xcd'', ''0xab'', ''0xab'']"
    using arg_cong [OF sample_combined_all, of "map snd"] by (simp add: comp_def)
qed

subsection \<open>Numeric fields\<close>








subsection \<open>The displayed list is sorted and capped\<close>

text \<open>What a mounted cycle stores when all its queries succeed.\<close>

lemma fetchAllEvents_success:
  assumes alive: "teardown e = None" and lb: "getBlockNumber e = Ok latestBlock"
    and ok: "\<forall>a f t. getLogs e a f t \<noteq> Err"
  shows "\<exists>ds cs.
      snd (fetchEventsForContract e DICE_CONTRACT_ADDRESS Dice
             (max (latestBlock - TOTAL_BLOCKS_TO_CHECK) 0) latestBlock (orEmpty acct)) = Ok ds
      \<and> snd (fetchEventsForContract e COINFLIP_CONTRACT_ADDRESS Coinflip
               (max (latestBlock - TOTAL_BLOCKS_TO_CHECK) 0) latestBlock (orEmpty acct)) = Ok cs
      \<and> events (snd (fetchAllEvents e acct u)) = take MAX_RESULTS (sortByBlockDesc (ds @ cs))"
proof -
  let ?s = "max (latestBlock - TOTAL_BLOCKS_TO_CHECK) 0"
  have m: "isMounted e t" for t using alive by (simp add: isMounted_def)
  have ne: "snd (fetchEventsForContract e a gt s l c) \<noteq> Err" for a gt s l c
    using fetchLogs_all_Ok [OF ok, of a s l 0 "[]" "[]"]
    by (simp add: fetchEventsForContract_Err)
  obtain ds where ds: "snd (fetchEventsForContract e DICE_CONTRACT_ADDRESS Dice ?s latestBlock (orEmpty acct)) = Ok ds"
    using ne [of DICE_CONTRACT_ADDRESS Dice ?s latestBlock "orEmpty acct"]
    by (cases "snd (fetchEventsForContract e DICE_CONTRACT_ADDRESS Dice ?s latestBlock (orEmpty acct))") auto
  obtain cs where cs: "snd (fetchEventsForContract e COINFLIP_CONTRACT_ADDRESS Coinflip ?s latestBlock (orEmpty acct)) = Ok cs"
    using ne [of COINFLIP_CONTRACT_ADDRESS Coinflip ?s latestBlock "orEmpty acct"]
    by (cases "snd (fetchEventsForContract e COINFLIP_CONTRACT_ADDRESS Coinflip ?s latestBlock (orEmpty acct))") auto
  have "events (snd (fetchAllEvents e acct u)) = take MAX_RESULTS (sortByBlockDesc (ds @ cs))"
    using lb m ds cs
    by (simp add: fetchAllEvents_def onStart_def onFinally_def onCatch_def promiseAll_def Let_def)
  with ds cs show ?thesis by blast
qed

lemma fetchRollEvents_success:
  assumes alive: "teardown e = None" and lb: "getBlockNumber e = Ok latestBlock"
    and ok: "\<forall>a f t. getLogs e a f t \<noteq> Err"
  shows "\<exists>tick queries allLogs.
      fetchLogsP e (max (latestBlock - TOTAL_BLOCKS_TO_CHECK) 0) latestBlock 0 1 [] []
          = (tick, queries, Ok allLogs)
      \<and> events (snd (fetchRollEvents e acct u))
          = take MAX_RESULTS_player (sortByBlockDesc (snd (parseLogsP e acct allLogs tick [])))"
proof -
  let ?s = "max (latestBlock - TOTAL_BLOCKS_TO_CHECK) 0"
  have m: "isMounted e t" for t using alive by (simp add: isMounted_def)
  obtain t q r where fl: "fetchLogsP e ?s latestBlock 0 1 [] [] = (t, q, r)"
    by (cases "fetchLogsP e ?s latestBlock 0 1 [] []") auto
  have "snd (snd (fetchLogsP e ?s latestBlock 0 1 [] [])) \<noteq> Err"
    using fetchLogs_all_Ok [OF ok] by (simp add: fetchLogsP_alive [OF alive])
  with fl obtain logs where r: "r = Ok logs" by (cases r) auto
  have "events (snd (fetchRollEvents e acct u))
          = take MAX_RESULTS_player (sortByBlockDesc (snd (parseLogsP e acct logs t [])))"
    using lb m fl r
    by (simp add: fetchRollEvents_def onStart_def onFinally_def onCatch_def Let_def
        split: prod.split)
  with fl r show ?thesis by blast
qed

lemma sample_combined_any:
  "map blockNumber (events (snd (fetchAllEvents sampleEnv None u))) = [300, 50, 50]"
  by (simp add: fetchAllEvents_def fetchEventsForContract_def sample_fetchLogs sample_fetchLogs_coinflip
        parseLogs_eq sample_loopBody sampleEnv_fields sampleEnv_mounted
        onStart_def onFinally_def onCatch_def promiseAll_def orEmpty_def
        sortByBlockDesc_def gameEventOf_fields sampleLog_fields Let_def
        TOTAL_BLOCKS_TO_CHECK_def MAX_RESULTS_def)

lemma sample_player_any:
  "map blockNumber (events (snd (fetchRollEvents sampleEnv ''0xAB'' u))) = [50, 50]"
  by (simp add: fetchRollEvents_def sample_fetchLogsP parseLogsP_Cons sample_loopBodyP
        sampleEnv_fields sampleEnv_mounted
        onStart_def onFinally_def onCatch_def
        sortByBlockDesc_def rollEventOf_fields sampleLog_fields Let_def
        TOTAL_BLOCKS_TO_CHECK_def MAX_RESULTS_player_def
      del: parseLogsP.simps(2))

text \<open>
  Claim C3. Whatever events a cycle has decoded, the list it stores is sorted by
  descending block number and holds at most \<open>MAX_RESULTS\<close> entries: 50 in the combined
  view, 20 in the player view. First for the expressions passed to \<open>setEvents\<close>; then
  for any cycle, which either leaves the displayed list as it was or stores such a
  list; then for a mounted cycle whose queries succeed: it replaces the displayed list,
  whatever that was, by the sorted and capped list of the events it has decoded.
\<close>

theorem display_sorted_and_capped:
  "sorted_wrt (\<lambda>a b. blockNumber b \<le> blockNumber a)
      (take MAX_RESULTS (sortByBlockDesc (diceEvents @ coinflipEvents)))
   \<and> length (take MAX_RESULTS (sortByBlockDesc (diceEvents @ coinflipEvents))) \<le> 50
   \<and> sorted_wrt (\<lambda>a b. blockNumber b \<le> blockNumber a)
      (take MAX_RESULTS_player (sortByBlockDesc parsedEvents))
   \<and> length (take MAX_RESULTS_player (sortByBlockDesc parsedEvents)) \<le> 20
   \<and> (events (snd (fetchAllEvents e currentAccount u)) = events u
      \<or> (sorted_wrt (\<lambda>a b. blockNumber b \<le> blockNumber a)
            (events (snd (fetchAllEvents e currentAccount u)))
         \<and> length (events (snd (fetchAllEvents e currentAccount u))) \<le> 50))
   \<and> (events (snd (fetchRollEvents e' account u')) = events u'
      \<or> (sorted_wrt (\<lambda>a b. blockNumber b \<le> blockNumber a)
            (events (snd (fetchRollEvents e' account u')))
         \<and> length (events (snd (fetchRollEvents e' account u'))) \<le> 20))
   \<and> (teardown e = None \<and> getBlockNumber e = Ok latestBlock \<and> (\<forall>a f t. getLogs e a f t \<noteq> Err)
        \<longrightarrow>
        (\<exists>ds cs.
           snd (fetchEventsForContract e DICE_CONTRACT_ADDRESS Dice
                  (max (latestBlock - 2000) 0) latestBlock (orEmpty currentAccount)) = Ok ds
           \<and> snd (fetchEventsForContract e COINFLIP_CONTRACT_ADDRESS Coinflip
                  (max (latestBlock - 2000) 0) latestBlock (orEmpty currentAccount)) = Ok cs
           \<and> events (snd (fetchAllEvents e currentAccount u))
               = take 50 (sortByBlockDesc (ds @ cs)))
        \<and> sorted_wrt (\<lambda>a b. blockNumber b \<le> blockNumber a)
            (events (snd (fetchAllEvents e currentAccount u)))
        \<and> length (events (snd (fetchAllEvents e currentAccount u))) \<le> 50)
   \<and> (teardown e' = None \<and> getBlockNumber e' = Ok latestBlock' \<and> (\<forall>a f t. getLogs e' a f t \<noteq> Err)
        \<longrightarrow>
        (\<exists>tick queries allLogs.
           fetchLogsP e' (max (latestBlock' - 2000) 0) latestBlock' 0 1 [] []
             = (tick, queries, Ok allLogs)
           \<and> events (snd (fetchRollEvents e' account u'))
               = take 20 (sortByBlockDesc (snd (parseLogsP e' account allLogs tick []))))
        \<and> sorted_wrt (\<lambda>a b. blockNumber b \<le> blockNumber a)
            (events (snd (fetchRollEvents e' account u')))
        \<and> length (events (snd (fetchRollEvents e' account u'))) \<le> 20)"
proof -
  have c5: "events (snd (fetchAllEvents e currentAccount u)) = events u
      \<or> (sorted_wrt (\<lambda>a b. blockNumber b \<le> blockNumber a) (events (snd (fetchAllEvents e currentAccount u)))
         \<and> length (events (snd (fetchAllEvents e currentAccount u))) \<le> 50)"
    using fetchAllEvents_events [of e currentAccount u]
    by (auto simp: display_sorted MAX_RESULTS_def)
  have c6: "events (snd (fetchRollEvents e' account u')) = events u'
      \<or> (sorted_wrt (\<lambda>a b. blockNumber b \<le> blockNumber a) (events (snd (fetchRollEvents e' account u')))
         \<and> length (events (snd (fetchRollEvents e' account u'))) \<le> 20)"
    using fetchRollEvents_events [of e' account u']
    by (auto simp: display_sorted MAX_RESULTS_player_def)
  have c7: "(\<exists>ds cs.
           snd (fetchEventsForContract e DICE_CONTRACT_ADDRESS Dice
                  (max (latestBlock - 2000) 0) latestBlock (orEmpty currentAccount)) = Ok ds
           \<and> snd (fetchEventsForContract e COINFLIP_CONTRACT_ADDRESS Coinflip
                  (max (latestBlock - 2000) 0) latestBlock (orEmpty currentAccount)) = Ok cs
           \<and> events (snd (fetchAllEvents e currentAccount u))
               = take 50 (sortByBlockDesc (ds @ cs)))
        \<and> sorted_wrt (\<lambda>a b. blockNumber b \<le> blockNumber a)
            (events (snd (fetchAllEvents e currentAccount u)))
        \<and> length (events (snd (fetchAllEvents e currentAccount u))) \<le> 50"
    if h: "teardown e = None \<and> getBlockNumber e = Ok latestBlock \<and> (\<forall>a f t. getLogs e a f t \<noteq> Err)"
  proof -
    from h fetchAllEvents_success [of e latestBlock currentAccount u] obtain ds cs
      where d: "snd (fetchEventsForContract e DICE_CONTRACT_ADDRESS Dice
                  (max (latestBlock - 2000) 0) latestBlock (orEmpty currentAccount)) = Ok ds"
        "snd (fetchEventsForContract e COINFLIP_CONTRACT_ADDRESS Coinflip
                  (max (latestBlock - 2000) 0) latestBlock (orEmpty currentAccount)) = Ok cs"
        "events (snd (fetchAllEvents e currentAccount u)) = take 50 (sortByBlockDesc (ds @ cs))"
      by (auto simp: TOTAL_BLOCKS_TO_CHECK_def MAX_RESULTS_def)
    from d(3) have "sorted_wrt (\<lambda>a b. blockNumber b \<le> blockNumber a)
            (events (snd (fetchAllEvents e currentAccount u)))"
      "length (events (snd (fetchAllEvents e currentAccount u))) \<le> 50"
      by (simp_all add: display_sorted)
    with d show ?thesis by blast
  qed
  have c8: "(\<exists>tick queries allLogs.
           fetchLogsP e' (max (latestBlock' - 2000) 0) latestBlock' 0 1 [] []
             = (tick, queries, Ok allLogs)
           \<and> events (snd (fetchRollEvents e' account u'))
               = take 20 (sortByBlockDesc (snd (parseLogsP e' account allLogs tick []))))
        \<and> sorted_wrt (\<lambda>a b. blockNumber b \<le> blockNumber a)
            (events (snd (fetchRollEvents e' account u')))
        \<and> length (events (snd (fetchRollEvents e' account u'))) \<le> 20"
    if h: "teardown e' = None \<and> getBlockNumber e' = Ok latestBlock' \<and> (\<forall>a f t. getLogs e' a f t \<noteq> Err)"
  proof -
    from h fetchRollEvents_success [of e' latestBlock' account u'] obtain tick queries allLogs
      where d: "fetchLogsP e' (max (latestBlock' - 2000) 0) latestBlock' 0 1 [] []
             = (tick, queries, Ok allLogs)"
        "events (snd (fetchRollEvents e' account u'))
               = take 20 (sortByBlockDesc (snd (parseLogsP e' account allLogs tick [])))"
      by (auto simp: TOTAL_BLOCKS_TO_CHECK_def MAX_RESULTS_player_def)
    from d(2) have "sorted_wrt (\<lambda>a b. blockNumber b \<le> blockNumber a)
            (events (snd (fetchRollEvents e' account u')))"
      "length (events (snd (fetchRollEvents e' account u'))) \<le> 20"
      by (simp_all add: display_sorted)
    with d show ?thesis by blast
  qed
  show ?thesis
    using c5 c6 c7 c8
    by (simp add: display_sorted MAX_RESULTS_def MAX_RESULTS_player_def del: One_nat_def)
qed

theorem display_sorted_and_capped_witness:
  "teardown sampleEnv = None
   \<and> getBlockNumber sampleEnv = Ok 500
   \<and> map blockNumber (events (shown oldGame)) = [7]
   \<and> map blockNumber (events (snd (fetchAllEvents sampleEnv None (shown oldGame)))) = [300, 50, 50]
   \<and> sorted_wrt (\<lambda>a b. blockNumber b \<le> blockNumber a)
        (events (snd (fetchAllEvents sampleEnv None (shown oldGame))))
   \<and> length (events (snd (fetchAllEvents sampleEnv None (shown oldGame)))) \<le> 50
   \<and> map blockNumber (events (snd (fetchRollEvents sampleEnv ''0xAB'' (shown oldRoll)))) = [50, 50]
   \<and> sorted_wrt (\<lambda>a b. blockNumber b \<le> blockNumber a)
        (events (snd (fetchRollEvents sampleEnv ''0xAB'' (shown oldRoll))))
   \<and> length (events (snd (fetchRollEvents sampleEnv ''0xAB'' (shown oldRoll)))) \<le> 20
   \<and> length (take MAX_RESULTS_player (sortByBlockDesc (replicate 25 oldRoll))) = 20
   \<and> length (take MAX_RESULTS (sortByBlockDesc (replicate 60 oldGame @ replicate 5 oldGame))) = 50"
proof -
  have ok: "\<forall>a f t. getLogs sampleEnv a f t \<noteq> Err"
    by (simp add: sampleEnv_fields)
  have h: "teardown sampleEnv = None \<and> getBlockNumber sampleEnv = Ok 500
      \<and> (\<forall>a f t. getLogs sampleEnv a f t \<noteq> Err)"
    using ok by (simp add: sampleEnv_fields)
  note t = display_sorted_and_capped [of _ _ _ sampleEnv None "shown oldGame"
      sampleEnv "''0xAB''" "shown oldRoll" 500 500]
  from t h have s:
    "sorted_wrt (\<lambda>a b. blockNumber b \<le> blockNumber a)
        (events (snd (fetchAllEvents sampleEnv None (shown oldGame))))"
    "length (events (snd (fetchAllEvents sampleEnv None (shown oldGame)))) \<le> 50"
    "sorted_wrt (\<lambda>a b. blockNumber b \<le> blockNumber a)
        (events (snd (fetchRollEvents sampleEnv ''0xAB'' (shown oldRoll))))"
    "length (events (snd (fetchRollEvents sampleEnv ''0xAB'' (shown oldRoll)))) \<le> 20"
    by blast+
  have o: "map blockNumber (events (shown oldGame)) = [7]"
    by (simp add: shown_def oldGame_def gameEventOf_fields sampleLog_fields)
  have l: "length (take MAX_RESULTS_player (sortByBlockDesc (replicate 25 oldRoll))) = 20"
    "length (take MAX_RESULTS (sortByBlockDesc (replicate 60 oldGame @ replicate 5 oldGame))) = 50"
    by (simp_all add: sortByBlockDesc_def MAX_RESULTS_def MAX_RESULTS_player_def)
  from s o l sample_combined_any [of "shown oldGame"] sample_player_any [of "shown oldRoll"]
  show ?thesis by (simp add: sampleEnv_fields)
qed

end
